theory Spec2Isabelle
  imports Complex_Main "HOL-Library.Sublist" "HOL-Library.AList"
begin

section \<open>Documents and the Python operations the script applies to them\<close>

text \<open>
  \<^verbatim>\<open>json.load\<close> yields \<^verbatim>\<open>None\<close>, \<^verbatim>\<open>bool\<close>, \<^verbatim>\<open>int\<close>, \<^verbatim>\<open>float\<close>, \<^verbatim>\<open>str\<close>, \<^verbatim>\<open>list\<close> and
  \<^verbatim>\<open>dict\<close> values. A \<^verbatim>\<open>dict\<close> keeps its insertion order and is an association list
  here; a Python \<^verbatim>\<open>dict\<close> never holds a key twice (\<open>wf_json\<close> below). A string is the
  list of its code points, the model covering the code points below 256. A finite
  \<^verbatim>\<open>float\<close> is the rational number it denotes; \<^verbatim>\<open>NaN\<close> and the infinities, which are not
  JSON, are not modelled.
\<close>

datatype json =
    JNull
  | JBool bool
  | JInt int
  | JFloat rat
  | JStr string
  | JList "json list"
  | JDict "(string \<times> json) list"

text \<open>The exceptions the script can raise on a parsed document.\<close>

datatype error = TypeError | AttributeError

fun wf_json :: "json \<Rightarrow> bool" where
  "wf_json (JList xs) = list_all wf_json xs"
| "wf_json (JDict kvs) = (distinct (map fst kvs) \<and> list_all (\<lambda>kv. wf_json (snd kv)) kvs)"
| "wf_json _ = True"

subsection \<open>Strings\<close>

text \<open>\<^verbatim>\<open>needle in s\<close> for two strings.\<close>

primrec py_in_str :: "string \<Rightarrow> string \<Rightarrow> bool" where
  "py_in_str needle [] = (needle = [])"
| "py_in_str needle (c # cs) = (prefix needle (c # cs) \<or> py_in_str needle cs)"

text \<open>\<^verbatim>\<open>s.split("@")[0]\<close>: the text before the first \<^verbatim>\<open>@\<close>, all of \<open>s\<close> when there is none.\<close>

definition local_part :: "string \<Rightarrow> string" where
  "local_part s = takeWhile (\<lambda>c. c \<noteq> CHR ''@'') s"

text \<open>
  \<^verbatim>\<open>str.isdigit\<close>: a non-empty string of digit characters. Below code point 256 these
  are \<^verbatim>\<open>0\<close> to \<^verbatim>\<open>9\<close> and the superscripts two, three and one (U+00B2, U+00B3, U+00B9).
\<close>

definition digit_char :: "char \<Rightarrow> bool" where
  "digit_char c = (c \<in> set ''0123456789'' \<or> c = CHR 0xB2 \<or> c = CHR 0xB3 \<or> c = CHR 0xB9)"

definition py_isdigit :: "string \<Rightarrow> bool" where
  "py_isdigit s = (s \<noteq> [] \<and> list_all digit_char s)"

text \<open>\<^verbatim>\<open>s.replace(old, new)\<close> for a non-empty \<open>old\<close>: every occurrence, left to right.\<close>

function py_replace :: "string \<Rightarrow> string \<Rightarrow> string \<Rightarrow> string" where
  "py_replace old new [] = []"
| "py_replace old new (c # cs) =
     (if old \<noteq> [] \<and> prefix old (c # cs)
      then new @ py_replace old new (drop (length old - 1) cs)
      else c # py_replace old new cs)"
  by pat_completeness auto
termination
  by (relation "measure (\<lambda>(old, new, s). length s)") auto

text \<open>\<^verbatim>\<open>str(n)\<close> for integers.\<close>

fun show_nat :: "nat \<Rightarrow> string" where
  "show_nat n =
     (if n < 10 then [''0123456789'' ! n]
      else show_nat (n div 10) @ [''0123456789'' ! (n mod 10)])"

declare show_nat.simps [simp del]

definition show_int :: "int \<Rightarrow> string" where
  "show_int i = (if i < 0 then CHR ''-'' # show_nat (nat (- i)) else show_nat (nat i))"

text \<open>
  \<^verbatim>\<open>repr\<close> of a string: single quotes, unless the string holds a single quote and no
  double quote; the quote and the backslash are escaped, tab, newline and return are
  written \<^verbatim>\<open>\t\<close>, \<^verbatim>\<open>\n\<close>, \<^verbatim>\<open>\r\<close>, and the other non-printable code points as \<^verbatim>\<open>\xhh\<close>.
\<close>

definition hex2 :: "nat \<Rightarrow> string" where
  "hex2 n = [''0123456789abcdef'' ! (n div 16), ''0123456789abcdef'' ! (n mod 16)]"

definition printable :: "char \<Rightarrow> bool" where
  "printable c =
     (let n = (of_char c :: nat)
      in 32 \<le> n \<and> n \<noteq> 127 \<and> \<not> (128 \<le> n \<and> n \<le> 160) \<and> n \<noteq> 173)"

definition repr_char :: "char \<Rightarrow> char \<Rightarrow> string" where
  "repr_char q c =
     (if c = q \<or> c = CHR 0x5C then [CHR 0x5C, c]
      else if c = CHR 0x09 then [CHR 0x5C, CHR ''t'']
      else if c = CHR 0x0A then [CHR 0x5C, CHR ''n'']
      else if c = CHR 0x0D then [CHR 0x5C, CHR ''r'']
      else if printable c then [c]
      else [CHR 0x5C, CHR ''x''] @ hex2 (of_char c))"

definition repr_str :: "string \<Rightarrow> string" where
  "repr_str s =
     (let q = (if CHR 0x27 \<in> set s \<and> CHR 0x22 \<notin> set s then CHR 0x22 else CHR 0x27)
      in q # concat (map (repr_char q) s) @ [q])"

text \<open>
  The text of a float. Python prints the shortest decimal that reads back as the same
  binary64 value and switches to exponent notation for large and small magnitudes; that
  choice of digits is not reproduced. The script only searches \<^verbatim>\<open>str(value)\<close> for the
  fixed host and domain names below, and the text of a number shares no character
  sequence with them, so the positional rendering used here gives the same answers.
\<close>

fun frac_digits :: "nat \<Rightarrow> rat \<Rightarrow> string" where
  "frac_digits 0 f = []"
| "frac_digits (Suc k) f =
     (let d = \<lfloor>10 * f\<rfloor>; f' = 10 * f - of_int d
      in (''0123456789'' ! nat d) # (if f' = 0 then [] else frac_digits k f'))"

definition float_text :: "rat \<Rightarrow> string" where
  "float_text r =
     (if r < 0 then ''-'' else []) @ show_nat (nat \<lfloor>\<bar>r\<bar>\<rfloor>) @ ''.''
       @ frac_digits 17 (\<bar>r\<bar> - of_int \<lfloor>\<bar>r\<bar>\<rfloor>)"

fun join :: "string \<Rightarrow> string list \<Rightarrow> string" where
  "join sep [] = []"
| "join sep [x] = x"
| "join sep (x # y # ys) = x @ sep @ join sep (y # ys)"

fun py_repr :: "json \<Rightarrow> string" where
  "py_repr JNull = ''None''"
| "py_repr (JBool b) = (if b then ''True'' else ''False'')"
| "py_repr (JInt i) = show_int i"
| "py_repr (JFloat r) = float_text r"
| "py_repr (JStr s) = repr_str s"
| "py_repr (JList xs) = ''['' @ join '', '' (map py_repr xs) @ '']''"
| "py_repr (JDict kvs) =
     ''{'' @ join '', '' (map (\<lambda>(k, v). repr_str k @ '': '' @ py_repr v) kvs) @ ''}''"

text \<open>\<^verbatim>\<open>str(value)\<close>: a string is itself, any other value is its \<^verbatim>\<open>repr\<close>.\<close>

definition py_str :: "json \<Rightarrow> string" where
  "py_str v = (case v of JStr s \<Rightarrow> s | _ \<Rightarrow> py_repr v)"

text \<open>\<^verbatim>\<open>len(value)\<close>: defined on strings, lists and dicts; a \<^verbatim>\<open>TypeError\<close> otherwise.\<close>

definition py_len :: "json \<Rightarrow> error + nat" where
  "py_len v =
     (case v of
        JStr s \<Rightarrow> Inr (length s)
      | JList xs \<Rightarrow> Inr (length xs)
      | JDict kvs \<Rightarrow> Inr (length kvs)
      | _ \<Rightarrow> Inl TypeError)"

subsection \<open>Dictionary keys\<close>

text \<open>
  A value used as a key of a Python \<^verbatim>\<open>dict\<close> must be hashable: lists and dicts raise
  \<^verbatim>\<open>TypeError\<close>. Keys are compared with \<^verbatim>\<open>==\<close>, under which \<^verbatim>\<open>True\<close>, \<^verbatim>\<open>1\<close> and \<^verbatim>\<open>1.0\<close> are
  the same key.
\<close>

datatype hkey = HNone | HNum rat | HStr string

definition py_key :: "json \<Rightarrow> error + hkey" where
  "py_key v =
     (case v of
        JNull \<Rightarrow> Inr HNone
      | JBool b \<Rightarrow> Inr (HNum (if b then 1 else 0))
      | JInt i \<Rightarrow> Inr (HNum (of_int i))
      | JFloat r \<Rightarrow> Inr (HNum r)
      | JStr s \<Rightarrow> Inr (HStr s)
      | JList xs \<Rightarrow> Inl TypeError
      | JDict kvs \<Rightarrow> Inl TypeError)"

subsection \<open>The random module\<close>

text \<open>
  The generator is the sequence of its future draws. \<^verbatim>\<open>random.choices(population, k=n)\<close>
  takes \<open>n\<close> draws, each an index into the population; \<^verbatim>\<open>random.randint(a, b)\<close> takes
  one draw, an offset from \<open>a\<close>.
\<close>

type_synonym rng = "nat \<Rightarrow> nat"

definition randbelow :: "nat \<Rightarrow> rng \<Rightarrow> nat \<times> rng" where
  "randbelow n g = (g 0 mod n, \<lambda>i. g (Suc i))"

fun random_choices :: "string \<Rightarrow> nat \<Rightarrow> rng \<Rightarrow> string \<times> rng" where
  "random_choices population 0 g = ([], g)"
| "random_choices population (Suc k) g =
     (let (i, g1) = randbelow (length population) g;
          (rest, g2) = random_choices population k g1
      in (population ! i # rest, g2))"

definition randint :: "nat \<Rightarrow> nat \<Rightarrow> rng \<Rightarrow> nat \<times> rng" where
  "randint a b g = (let (i, g1) = randbelow (b - a + 1) g in (a + i, g1))"

section \<open>The script\<close>

subsection \<open>Constants\<close>

definition FIRST_NAMES :: "string list" where
  "FIRST_NAMES =
    [''Alice'', ''Bob'', ''Charlie'', ''Diana'', ''Emma'', ''Frank'', ''Grace'', ''Henry'',
     ''Isabella'', ''Jack'', ''Kate'', ''Liam'', ''Maya'', ''Noah'', ''Olivia'', ''Peter'',
     ''Quinn'', ''Rachel'', ''Sam'', ''Tara'', ''Uma'', ''Victor'', ''Wendy'', ''Xavier'',
     ''Yara'', ''Zoe'', ''Aaron'', ''Beth'', ''Colin'', ''Daisy'', ''Ethan'', ''Fiona'',
     ''George'', ''Hannah'', ''Ian'', ''Julia'', ''Kevin'', ''Luna'', ''Mike'', ''Nina'',
     ''Oscar'', ''Paula'', ''Quincy'', ''Rosa'', ''Steve'', ''Tina'', ''Ulysses'', ''Vera'',
     ''William'', ''Xena'', ''Yuki'', ''Zachary'', ''Amy'', ''Blake'', ''Chloe'', ''David'',
     ''Eva'', ''Felix'', ''Gina'', ''Hugo'', ''Iris'', ''Jake'', ''Kelly'', ''Leo'',
     ''Mia'', ''Nathan'', ''Opal'', ''Patrick'', ''Queenie'', ''Ryan'', ''Sophia'', ''Tom'',
     ''Una'', ''Vince'', ''Willow'', ''Xander'', ''Yasmin'', ''Zara'', ''Adam'', ''Bella'']"

definition LAST_NAMES :: "string list" where
  "LAST_NAMES =
    [''Anderson'', ''Brown'', ''Clark'', ''Davis'', ''Evans'', ''Foster'', ''Garcia'', ''Harris'',
     ''Irving'', ''Johnson'', ''King'', ''Lopez'', ''Miller'', ''Nelson'', ''O'Brien'', ''Parker'',
     ''Quinn'', ''Roberts'', ''Smith'', ''Taylor'', ''Underwood'', ''Valdez'', ''Williams'', ''Xavier'',
     ''Young'', ''Zhang'', ''Adams'', ''Baker'', ''Carter'', ''Dixon'', ''Edwards'', ''Fisher'',
     ''Green'', ''Hill'', ''Jackson'', ''Kumar'', ''Lee'', ''Martin'', ''Nguyen'', ''Owen'',
     ''Patel'', ''Rodriguez'', ''Scott'', ''Thompson'', ''Turner'', ''Walker'', ''White'', ''Wilson'',
     ''Chen'', ''Kim'', ''Singh'', ''Ali'', ''Moore'', ''Wright'', ''Hall'', ''Allen'',
     ''Torres'', ''Ramirez'', ''Flores'', ''Rivera'', ''Campbell'', ''Mitchell'', ''Gonzalez'', ''Perez'',
     ''Sanchez'', ''Bailey'', ''Murphy'', ''Cooper'', ''Richardson'', ''Cox'', ''Ward'', ''Peterson'',
     ''Bennett'', ''Watson'', ''Jenkins'', ''Perry'', ''Powell'', ''Long'', ''Patterson'', ''Hughes'']"

definition student_domain :: string where
  "student_domain = ''@gapps.yrdsb.ca''"

definition teacher_email :: string where
  "teacher_email = ''stewart.chan@gapps.yrdsb.ca''"

definition default_timestamp :: string where
  "default_timestamp = ''2025-01-15T12:00:00.000Z''"

subsection \<open>Synthetic values\<close>

definition reverse_student_number :: "string \<Rightarrow> string" where
  "reverse_student_number student_number = rev student_number"

text \<open>
  The name tried at one round of the loop of \<^verbatim>\<open>generate_fake_name\<close>, and the name
  returned after the loop: \<^verbatim>\<open>first\<close> and \<^verbatim>\<open>last\<close> then still hold the values of the last
  round, \<^verbatim>\<open>attempts = 99\<close>.
\<close>

definition candidate_name :: "nat \<Rightarrow> nat \<Rightarrow> string" where
  "candidate_name index attempts =
     (let first = FIRST_NAMES ! (index mod length FIRST_NAMES);
          last = LAST_NAMES ! ((index + attempts) mod length LAST_NAMES)
      in first @ '' '' @ last)"

definition fallback_name :: "nat \<Rightarrow> string" where
  "fallback_name index = candidate_name index 99 @ show_nat index"

function fake_name_loop :: "nat \<Rightarrow> string set \<Rightarrow> nat \<Rightarrow> string \<times> string set" where
  "fake_name_loop index used_names attempts =
     (if attempts < 100 then
        (let name = candidate_name index attempts
         in if name \<notin> used_names then (name, insert name used_names)
            else fake_name_loop index used_names (attempts + 1))
      else (fallback_name index, used_names))"
  by pat_completeness auto
termination
  by (relation "measure (\<lambda>(index, used_names, attempts). 100 - attempts)") auto

declare fake_name_loop.simps [simp del]

definition generate_fake_name :: "nat \<Rightarrow> string set \<Rightarrow> string \<times> string set" where
  "generate_fake_name index used_names = fake_name_loop index used_names 0"

subsection \<open>The mapping tables\<close>

text \<open>
  The three dicts and the set that \<^verbatim>\<open>anonymize_json\<close> creates and its two nested
  functions share. \<^verbatim>\<open>d[k] = v\<close> is \<open>AList.update k v d\<close>, \<^verbatim>\<open>k in d\<close> is
  \<open>map_of d k \<noteq> None\<close>, and \<^verbatim>\<open>len(d)\<close> is \<open>length d\<close>.
\<close>

record maps =
  name_mapping :: "(hkey \<times> string) list"
  student_number_mapping :: "(string \<times> string) list"
  student_id_mapping :: "(string \<times> string) list"
  used_names :: "string set"

definition init_maps :: maps where
  "init_maps =
     \<lparr> name_mapping =
         AList.update (HStr ''Test Teacher'') ''Dev CodePet''
           (AList.update (HStr ''Stewart Chan'') ''Dev CodePet'' []),
       student_number_mapping = [],
       student_id_mapping = [],
       used_names = {} \<rparr>"

subsection \<open>First pass: \<^verbatim>\<open>collect_identifiers\<close>\<close>

text \<open>
  The test \<^verbatim>\<open>"@gapps.yrdsb.ca" in email and email.split("@")[0].isdigit()\<close> and, when it
  holds, the student number \<^verbatim>\<open>email.split("@")[0]\<close>. On a list or dict \<^verbatim>\<open>in\<close> is
  membership, and \<^verbatim>\<open>split\<close> then raises \<^verbatim>\<open>AttributeError\<close>; on any other value that is
  not a string \<^verbatim>\<open>in\<close> raises \<^verbatim>\<open>TypeError\<close>.
\<close>

definition student_number_of :: "json \<Rightarrow> error + string option" where
  "student_number_of email =
     (case email of
        JStr s \<Rightarrow>
          Inr (if py_in_str student_domain s \<and> py_isdigit (local_part s)
               then Some (local_part s) else None)
      | JList xs \<Rightarrow> if JStr student_domain \<in> set xs then Inl AttributeError else Inr None
      | JDict kvs \<Rightarrow>
          if student_domain \<in> set (map fst kvs) then Inl AttributeError else Inr None
      | _ \<Rightarrow> Inl TypeError)"

definition map_student_number :: "string \<Rightarrow> maps \<Rightarrow> maps" where
  "map_student_number student_number st =
     (if map_of (student_number_mapping st) student_number = None
      then st\<lparr>student_number_mapping :=
               AList.update student_number (reverse_student_number student_number)
                 (student_number_mapping st)\<rparr>
      else st)"

definition map_name :: "json \<Rightarrow> maps \<Rightarrow> error + maps" where
  "map_name name st =
     (case py_key name of
        Inl e \<Rightarrow> Inl e
      | Inr k \<Rightarrow>
          if map_of (name_mapping st) k = None \<and> name \<noteq> JStr ''Stewart Chan''
          then (let (fake_name, used) =
                      generate_fake_name (length (name_mapping st)) (used_names st)
                in Inr (st\<lparr>name_mapping := AList.update k fake_name (name_mapping st),
                            used_names := used\<rparr>))
          else Inr st)"

text \<open>
  The block run for a node that has both a name field and an email field; the script
  holds it twice, for \<^verbatim>\<open>name\<close>/\<^verbatim>\<open>email\<close> and for \<^verbatim>\<open>studentName\<close>/\<^verbatim>\<open>studentEmail\<close>.
\<close>

definition collect_student :: "string \<Rightarrow> string \<Rightarrow> (string \<times> json) list \<Rightarrow> maps \<Rightarrow> error + maps" where
  "collect_student name_key email_key obj st =
     (case (map_of obj name_key, map_of obj email_key) of
        (Some name, Some email) \<Rightarrow>
          (case student_number_of email of
             Inl e \<Rightarrow> Inl e
           | Inr None \<Rightarrow> Inr st
           | Inr (Some student_number) \<Rightarrow>
               (case map_name name st of
                  Inl e \<Rightarrow> Inl e
                | Inr st1 \<Rightarrow> Inr (map_student_number student_number st1)))
      | _ \<Rightarrow> Inr st)"

definition collect_teacher :: "(string \<times> json) list \<Rightarrow> maps \<Rightarrow> maps" where
  "collect_teacher obj st =
     (if map_of obj ''email'' = Some (JStr teacher_email)
      then st\<lparr>name_mapping :=
               AList.update (HStr ''Stewart Chan'') ''Dev CodePet'' (name_mapping st)\<rparr>
      else st)"

definition collect_email :: "(string \<times> json) list \<Rightarrow> maps \<Rightarrow> error + maps" where
  "collect_email obj st =
     (case map_of obj ''email'' of
        None \<Rightarrow> Inr st
      | Some email \<Rightarrow>
          (case student_number_of email of
             Inl e \<Rightarrow> Inl e
           | Inr None \<Rightarrow> Inr st
           | Inr (Some student_number) \<Rightarrow> Inr (map_student_number student_number st)))"

text \<open>
  \<^verbatim>\<open>student_id not in student_id_mapping\<close> hashes the value and \<^verbatim>\<open>len(student_id)\<close>
  measures it: only a string passes both.
\<close>

definition collect_student_id :: "(string \<times> json) list \<Rightarrow> maps \<times> rng \<Rightarrow> error + maps \<times> rng" where
  "collect_student_id obj s =
     (case map_of obj ''studentId'' of
        None \<Rightarrow> Inr s
      | Some (JStr student_id) \<Rightarrow>
          (let (st, g) = s
           in if map_of (student_id_mapping st) student_id = None
              then (let (fake_id, g1) = random_choices ''0123456789'' (length student_id) g
                    in Inr (st\<lparr>student_id_mapping :=
                                 AList.update student_id fake_id (student_id_mapping st)\<rparr>, g1))
              else Inr s)
      | Some _ \<Rightarrow> Inl TypeError)"

text \<open>The rules of one dict node, in the order of the source.\<close>

definition collect_node :: "(string \<times> json) list \<Rightarrow> maps \<times> rng \<Rightarrow> error + maps \<times> rng" where
  "collect_node obj s =
     (let (st, g) = s
      in case collect_student ''name'' ''email'' obj (collect_teacher obj st) of
           Inl e \<Rightarrow> Inl e
         | Inr st1 \<Rightarrow>
             (case collect_student ''studentName'' ''studentEmail'' obj st1 of
                Inl e \<Rightarrow> Inl e
              | Inr st2 \<Rightarrow>
                  (case collect_email obj st2 of
                     Inl e \<Rightarrow> Inl e
                   | Inr st3 \<Rightarrow> collect_student_id obj (st3, g))))"

fun collect_identifiers :: "json \<Rightarrow> maps \<times> rng \<Rightarrow> error + maps \<times> rng"
  and collect_values :: "(string \<times> json) list \<Rightarrow> maps \<times> rng \<Rightarrow> error + maps \<times> rng"
  and collect_items :: "json list \<Rightarrow> maps \<times> rng \<Rightarrow> error + maps \<times> rng"
where
  "collect_identifiers (JDict obj) s =
     (case collect_node obj s of Inl e \<Rightarrow> Inl e | Inr s1 \<Rightarrow> collect_values obj s1)"
| "collect_identifiers (JList xs) s = collect_items xs s"
| "collect_identifiers JNull s = Inr s"
| "collect_identifiers (JBool b) s = Inr s"
| "collect_identifiers (JInt i) s = Inr s"
| "collect_identifiers (JFloat r) s = Inr s"
| "collect_identifiers (JStr t) s = Inr s"
| "collect_values [] s = Inr s"
| "collect_values (kv # kvs) s =
     (case collect_identifiers (snd kv) s of Inl e \<Rightarrow> Inl e | Inr s1 \<Rightarrow> collect_values kvs s1)"
| "collect_items [] s = Inr s"
| "collect_items (x # xs) s =
     (case collect_identifiers x s of Inl e \<Rightarrow> Inl e | Inr s1 \<Rightarrow> collect_items xs s1)"

subsection \<open>Second pass: \<^verbatim>\<open>replace_identifiers\<close>\<close>

text \<open>The student-email branch: \<^verbatim>\<open>value.split\<close> exists on strings only.\<close>

definition replace_student_email :: "maps \<Rightarrow> json \<Rightarrow> error + json" where
  "replace_student_email st value =
     (case value of
        JStr s \<Rightarrow>
          (let student_number = local_part s
           in if py_isdigit student_number then
                (case map_of (student_number_mapping st) student_number of
                   Some reversed_number \<Rightarrow> Inr (JStr (reversed_number @ ''@gapps.yrdsb.ca''))
                 | None \<Rightarrow>
                     Inr (JStr (reverse_student_number student_number @ ''@gapps.yrdsb.ca'')))
              else Inr value)
      | _ \<Rightarrow> Inl AttributeError)"

text \<open>\<^verbatim>\<open>isinstance(value, str) and value in name_mapping\<close>, with the entry found.\<close>

definition lookup_name :: "maps \<Rightarrow> json \<Rightarrow> string option" where
  "lookup_name st value =
     (case value of JStr s \<Rightarrow> map_of (name_mapping st) (HStr s) | _ \<Rightarrow> None)"

text \<open>\<^verbatim>\<open>value in student_id_mapping\<close>, with the entry found; a list or dict is unhashable.\<close>

definition lookup_student_id :: "maps \<Rightarrow> json \<Rightarrow> error + string option" where
  "lookup_student_id st value =
     (case value of
        JStr s \<Rightarrow> Inr (map_of (student_id_mapping st) s)
      | JList xs \<Rightarrow> Inl TypeError
      | JDict kvs \<Rightarrow> Inl TypeError
      | _ \<Rightarrow> Inr None)"

definition replace_url :: "json \<Rightarrow> json" where
  "replace_url value =
     (let s = py_str value
      in if py_in_str ''classroom.google.com'' s
           then JStr ''https://classroom.example.com/placeholder''
         else if py_in_str ''docs.google.com/forms'' s
           then JStr ''https://forms.example.com/placeholder''
         else if py_in_str ''docs.google.com/spreadsheets'' s
           then JStr ''https://sheets.example.com/placeholder''
         else if py_in_str ''googleusercontent.com'' s \<or> prefix ''//lh'' s
           then JStr ''https://cdn.example.com/placeholder.png''
         else value)"

text \<open>\<^verbatim>\<open>if key not in d: d[key] = value\<close>.\<close>

definition set_default :: "string \<Rightarrow> json \<Rightarrow> (string \<times> json) list \<Rightarrow> (string \<times> json) list" where
  "set_default key value d =
     (if map_of d key = None then AList.update key value d else d)"

text \<open>
  The eleven \<^verbatim>\<open>if ... not in quiz_data\<close> statements, in the order of the source. The
  first draws the form number, the seventh measures \<^verbatim>\<open>quiz_data.get("questions", [])\<close>.
\<close>

definition fix_form_id :: "(string \<times> json) list \<Rightarrow> rng \<Rightarrow> (string \<times> json) list \<times> rng" where
  "fix_form_id quiz_data g =
     (if map_of quiz_data ''formId'' = None
      then (let (n, g1) = randint 100000 999999 g
            in (AList.update ''formId'' (JStr (''quiz_form_'' @ show_nat n)) quiz_data, g1))
      else (quiz_data, g))"

definition fix_total_questions :: "(string \<times> json) list \<Rightarrow> error + (string \<times> json) list" where
  "fix_total_questions quiz_data =
     (if map_of quiz_data ''totalQuestions'' = None
      then (case py_len (case map_of quiz_data ''questions'' of
                           None \<Rightarrow> JList [] | Some questions \<Rightarrow> questions) of
              Inl e \<Rightarrow> Inl e
            | Inr n \<Rightarrow> Inr (AList.update ''totalQuestions'' (JInt (int n)) quiz_data))
      else Inr quiz_data)"

definition fix_quiz_data :: "(string \<times> json) list \<Rightarrow> rng \<Rightarrow> error + (string \<times> json) list \<times> rng" where
  "fix_quiz_data quiz_data g =
     (let (q1, g1) = fix_form_id quiz_data g;
          q2 = set_default ''formUrl'' (JStr ''https://forms.example.com/placeholder'') q1;
          q3 = set_default ''title'' (JStr ''Sample Quiz'') q2;
          q4 = set_default ''isQuiz'' (JBool True) q3;
          q5 = set_default ''collectEmailAddresses'' (JBool True) q4;
          q6 = set_default ''allowResponseEditing'' (JBool False) q5
      in case fix_total_questions q6 of
           Inl e \<Rightarrow> Inl e
         | Inr q7 \<Rightarrow>
             (let q8 = set_default ''totalPoints'' (JInt 100) q7;
                  q9 = set_default ''autoGradableQuestions'' (JInt 0) q8;
                  q10 = set_default ''manualGradingRequired'' (JBool True) q9;
                  q11 = set_default ''requireSignIn'' (JBool True) q10
              in Inr (q11, g1)))"

text \<open>
  The \<^verbatim>\<open>if\<close>/\<^verbatim>\<open>elif\<close> chain of one entry, up to the branch that recurses. The result
  \<open>Some v\<close> is the value a branch assigns to \<^verbatim>\<open>new_obj[key]\<close>; \<open>None\<close> says that no
  branch above the recursive one applies. The chain is cut in three to keep a condition
  that raises in its place: each part hands over to the next where the source falls
  through to the next \<^verbatim>\<open>elif\<close>.
\<close>

definition replace_rest :: "string \<Rightarrow> json \<Rightarrow> rng \<Rightarrow> error + json option \<times> rng" where
  "replace_rest key value g =
     (if key \<in> set [''alternateLink'', ''formUrl'', ''responseUrl'', ''thumbnailUrl'', ''photoUrl'']
        then Inr (Some (replace_url value), g)
      else if key = ''quizData'' \<and> (case value of JDict d \<Rightarrow> True | _ \<Rightarrow> False) then
        (case value of
           JDict d \<Rightarrow>
             (case fix_quiz_data d g of
                Inl e \<Rightarrow> Inl e
              | Inr (quiz_data, g1) \<Rightarrow> Inr (Some (JDict quiz_data), g1))
         | _ \<Rightarrow> Inr (None, g))
      else if key = ''courseGroupEmail'' then
        (case value of
           JStr s \<Rightarrow> Inr (Some (JStr (py_replace ''@gapps.yrdsb.ca'' ''@example.com'' s)), g)
         | _ \<Rightarrow> Inl AttributeError)
      else Inr (None, g))"

definition replace_ids :: "maps \<Rightarrow> string \<Rightarrow> json \<Rightarrow> rng \<Rightarrow> error + json option \<times> rng" where
  "replace_ids st key value g =
     (if key = ''studentId'' then
        (case lookup_student_id st value of
           Inl e \<Rightarrow> Inl e
         | Inr (Some fake_id) \<Rightarrow> Inr (Some (JStr fake_id), g)
         | Inr None \<Rightarrow> replace_rest key value g)
      else replace_rest key value g)"

definition replace_value :: "maps \<Rightarrow> string \<Rightarrow> json \<Rightarrow> rng \<Rightarrow> error + json option \<times> rng" where
  "replace_value st key value g =
     (if key \<in> set [''email'', ''teacherEmail''] \<and> value = JStr ''stewart.chan@gapps.yrdsb.ca''
        then Inr (Some (JStr ''dev.codepet@gmail.com''), g)
      else if key \<in> set [''email'', ''studentEmail'']
              \<and> py_in_str ''@gapps.yrdsb.ca'' (py_str value) then
        (case replace_student_email st value of
           Inl e \<Rightarrow> Inl e
         | Inr v \<Rightarrow> Inr (Some v, g))
      else if key \<in> set [''name'', ''displayName'', ''studentName''] then
        (case lookup_name st value of
           Some fake_name \<Rightarrow> Inr (Some (JStr fake_name), g)
         | None \<Rightarrow> replace_ids st key value g)
      else replace_ids st key value g)"

text \<open>
  The repair of a rebuilt dict that holds both \<^verbatim>\<open>studentEmail\<close> and \<^verbatim>\<open>studentName\<close>;
  \<open>fix_grade\<close> is its last step, the assignment to \<^verbatim>\<open>new_obj["grade"]["gradedBy"]\<close>.
\<close>

definition fix_grade :: "(string \<times> json) list \<Rightarrow> (string \<times> json) list" where
  "fix_grade new_obj =
     (case map_of new_obj ''grade'' of
        Some (JDict grade) \<Rightarrow>
          (if map_of grade ''gradedBy'' = Some (JStr ''teacher'')
           then AList.update ''grade''
                  (JDict (AList.update ''gradedBy'' (JStr ''manual'') grade)) new_obj
           else new_obj)
      | _ \<Rightarrow> new_obj)"

definition fix_submission :: "(string \<times> json) list \<Rightarrow> (string \<times> json) list" where
  "fix_submission new_obj =
     (if map_of new_obj ''studentEmail'' \<noteq> None \<and> map_of new_obj ''studentName'' \<noteq> None then
        (let o1 = set_default ''updatedAt''
                    (case map_of new_obj ''submittedAt'' of
                       Some v \<Rightarrow> v | None \<Rightarrow> JStr ''2025-01-15T12:00:00.000Z'')
                    new_obj;
             o2 = set_default ''attachments'' (JList []) o1
         in fix_grade o2)
      else new_obj)"

definition is_container :: "json \<Rightarrow> bool" where
  "is_container v = (case v of JList xs \<Rightarrow> True | JDict kvs \<Rightarrow> True | _ \<Rightarrow> False)"

text \<open>
  \<open>replace_entries\<close> is the loop over \<^verbatim>\<open>obj.items()\<close>, \<open>new_obj\<close> the dict built so
  far; \<open>replace_items\<close> is the list comprehension.
\<close>

fun replace_identifiers :: "maps \<Rightarrow> json \<Rightarrow> rng \<Rightarrow> error + json \<times> rng"
  and replace_entries ::
    "maps \<Rightarrow> (string \<times> json) list \<Rightarrow> (string \<times> json) list \<Rightarrow> rng
      \<Rightarrow> error + (string \<times> json) list \<times> rng"
  and replace_items :: "maps \<Rightarrow> json list \<Rightarrow> rng \<Rightarrow> error + json list \<times> rng"
where
  "replace_identifiers st (JDict obj) g =
     (case replace_entries st obj [] g of
        Inl e \<Rightarrow> Inl e
      | Inr (new_obj, g1) \<Rightarrow> Inr (JDict (fix_submission new_obj), g1))"
| "replace_identifiers st (JList xs) g =
     (case replace_items st xs g of
        Inl e \<Rightarrow> Inl e
      | Inr (ys, g1) \<Rightarrow> Inr (JList ys, g1))"
| "replace_identifiers st JNull g = Inr (JNull, g)"
| "replace_identifiers st (JBool b) g = Inr (JBool b, g)"
| "replace_identifiers st (JInt i) g = Inr (JInt i, g)"
| "replace_identifiers st (JFloat r) g = Inr (JFloat r, g)"
| "replace_identifiers st (JStr s) g = Inr (JStr s, g)"
| "replace_entries st [] new_obj g = Inr (new_obj, g)"
| "replace_entries st (kv # rest) new_obj g =
     (case replace_value st (fst kv) (snd kv) g of
        Inl e \<Rightarrow> Inl e
      | Inr (Some v, g1) \<Rightarrow> replace_entries st rest (AList.update (fst kv) v new_obj) g1
      | Inr (None, g1) \<Rightarrow>
          (if is_container (snd kv) then
             (case replace_identifiers st (snd kv) g1 of
                Inl e \<Rightarrow> Inl e
              | Inr (v, g2) \<Rightarrow> replace_entries st rest (AList.update (fst kv) v new_obj) g2)
           else replace_entries st rest (AList.update (fst kv) (snd kv) new_obj) g1))"
| "replace_items st [] g = Inr ([], g)"
| "replace_items st (x # xs) g =
     (case replace_identifiers st x g of
        Inl e \<Rightarrow> Inl e
      | Inr (y, g1) \<Rightarrow>
          (case replace_items st xs g1 of
             Inl e \<Rightarrow> Inl e
           | Inr (ys, g2) \<Rightarrow> Inr (y # ys, g2)))"

subsection \<open>\<^verbatim>\<open>anonymize_json\<close>\<close>

definition anonymize_json :: "json \<Rightarrow> rng \<Rightarrow> error + json" where
  "anonymize_json data g =
     (case collect_identifiers data (init_maps, g) of
        Inl e \<Rightarrow> Inl e
      | Inr (st, g1) \<Rightarrow>
          (case replace_identifiers st data g1 of
             Inl e \<Rightarrow> Inl e
           | Inr (out, g2) \<Rightarrow> Inr out))"

section \<open>Notions used to state the properties\<close>

subsection \<open>Places in a document\<close>

text \<open>
  A path leads from the root of a document to one of its nodes. \<open>reached d p\<close> says that
  the second pass, started at the root \<open>d\<close>, calls \<^verbatim>\<open>replace_identifiers\<close> on the node at
  \<open>p\<close>: it does not descend into the value of a URL-bearing key, which it replaces or
  copies as a whole, nor into a dict stored under \<^verbatim>\<open>quizData\<close>.
\<close>

datatype step = Key string | Idx nat

fun get_path :: "json \<Rightarrow> step list \<Rightarrow> json option" where
  "get_path v [] = Some v"
| "get_path (JDict kvs) (Key k # p) =
     (case map_of kvs k of Some v \<Rightarrow> get_path v p | None \<Rightarrow> None)"
| "get_path (JList xs) (Idx i # p) = (if i < length xs then get_path (xs ! i) p else None)"
| "get_path _ _ = None"

definition descends :: "string \<Rightarrow> json \<Rightarrow> bool" where
  "descends key value =
     (key \<notin> set [''alternateLink'', ''formUrl'', ''responseUrl'', ''thumbnailUrl'', ''photoUrl'']
      \<and> \<not> (key = ''quizData'' \<and> (case value of JDict d \<Rightarrow> True | _ \<Rightarrow> False)))"

fun reached :: "json \<Rightarrow> step list \<Rightarrow> bool" where
  "reached v [] = True"
| "reached (JDict kvs) (Key k # p) =
     (case map_of kvs k of Some v \<Rightarrow> descends k v \<and> reached v p | None \<Rightarrow> False)"
| "reached (JList xs) (Idx i # p) = (i < length xs \<and> reached (xs ! i) p)"
| "reached _ _ = False"

text \<open>The node of the output at a path, when the run returned a document.\<close>

definition output_at :: "step list \<Rightarrow> error + json \<Rightarrow> json option" where
  "output_at p r = (case r of Inr out \<Rightarrow> get_path out p | Inl e \<Rightarrow> None)"

text \<open>A generator for closed examples: every draw is 0.\<close>

definition zero_rng :: rng where
  "zero_rng = (\<lambda>i. 0)"

subsection \<open>What the second pass assigns to one entry\<close>

text \<open>
  \<open>entry_out st (key, value) v\<close>: for some state of the generator, the loop body of
  \<^verbatim>\<open>replace_identifiers\<close> assigns \<open>v\<close> to \<^verbatim>\<open>new_obj[key]\<close>.
\<close>

definition entry_out :: "maps \<Rightarrow> string \<times> json \<Rightarrow> json \<Rightarrow> bool" where
  "entry_out st kv v' =
     (\<exists>g g1. replace_value st (fst kv) (snd kv) g = Inr (Some v', g1)
        \<or> (replace_value st (fst kv) (snd kv) g = Inr (None, g1)
            \<and> (if is_container (snd kv)
                then (\<exists>g2. replace_identifiers st (snd kv) g1 = Inr (v', g2))
                else v' = snd kv)))"

text \<open>
  A rebuilt dict, as returned and as it stands in the final document: its parent may
  since have rewritten its \<^verbatim>\<open>gradedBy\<close> entry.
\<close>

definition regraded :: "(string \<times> json) list \<Rightarrow> (string \<times> json) list \<Rightarrow> bool" where
  "regraded n n' =
     (n' = n \<or> (map_of n ''gradedBy'' = Some (JStr ''teacher'')
                \<and> n' = AList.update ''gradedBy'' (JStr ''manual'') n))"

subsection \<open>The quiz scenario\<close>

text \<open>
  The dict that the \<^verbatim>\<open>quizData\<close> branch builds from \<^verbatim>\<open>{"questions": [1, 2, 3]}\<close> when
  \<^verbatim>\<open>random.randint\<close> returns \<open>n\<close>.
\<close>

definition quiz_scenario_out :: "nat \<Rightarrow> json" where
  "quiz_scenario_out n =
     JDict
       [(''questions'', JList [JInt 1, JInt 2, JInt 3]),
        (''formId'', JStr (''quiz_form_'' @ show_nat n)),
        (''formUrl'', JStr ''https://forms.example.com/placeholder''),
        (''title'', JStr ''Sample Quiz''),
        (''isQuiz'', JBool True),
        (''collectEmailAddresses'', JBool True),
        (''allowResponseEditing'', JBool False),
        (''totalQuestions'', JInt 3),
        (''totalPoints'', JInt 100),
        (''autoGradableQuestions'', JInt 0),
        (''manualGradingRequired'', JBool True),
        (''requireSignIn'', JBool True)]"


text \<open>The keys that the \<^verbatim>\<open>quizData\<close> branch adds when they are absent.\<close>

definition quiz_fields :: "string list" where
  "quiz_fields =
     [''formId'', ''formUrl'', ''title'', ''isQuiz'', ''collectEmailAddresses'',
      ''allowResponseEditing'', ''totalQuestions'', ''totalPoints'', ''autoGradableQuestions'',
      ''manualGradingRequired'', ''requireSignIn'']"

text \<open>A quiz dict that already has a title and holds identifiers, and its rewrite.\<close>

definition quiz_frame_in :: json where
  "quiz_frame_in =
     JDict [(''title'', JStr ''Unit 1''), (''studentId'', JStr ''abc''),
            (''email'', JStr ''123456789@gapps.yrdsb.ca'')]"

definition quiz_frame_out :: json where
  "quiz_frame_out =
     JDict [(''title'', JStr ''Unit 1''), (''studentId'', JStr ''abc''),
            (''email'', JStr ''123456789@gapps.yrdsb.ca''),
            (''formId'', JStr ''quiz_form_100000''),
            (''formUrl'', JStr ''https://forms.example.com/placeholder''),
            (''isQuiz'', JBool True),
            (''collectEmailAddresses'', JBool True),
            (''allowResponseEditing'', JBool False),
            (''totalQuestions'', JInt 0),
            (''totalPoints'', JInt 100),
            (''autoGradableQuestions'', JInt 0),
            (''manualGradingRequired'', JBool True),
            (''requireSignIn'', JBool True)]"

subsection \<open>The mapping tables during the first pass\<close>

text \<open>
  \<open>numbers_reversed\<close>: every entry of the Student-Number Mapping maps a number to its
  reversal. \<open>ids_digits\<close>: every entry of the Student-ID Mapping maps an ID to a string of
  the digits 0 to 9 of the same length. \<open>grows st st'\<close>: these two tables keep their
  entries from \<open>st\<close> to \<open>st'\<close>.
\<close>

definition numbers_reversed :: "maps \<Rightarrow> bool" where
  "numbers_reversed st =
     (\<forall>k v. map_of (student_number_mapping st) k = Some v \<longrightarrow> v = rev k)"

definition digits_only :: "string \<Rightarrow> bool" where
  "digits_only s = list_all (\<lambda>c. c \<in> set ''0123456789'') s"

definition ids_digits :: "maps \<Rightarrow> bool" where
  "ids_digits st =
     (\<forall>k v. map_of (student_id_mapping st) k = Some v
        \<longrightarrow> length v = length k \<and> digits_only v)"

definition grows :: "maps \<Rightarrow> maps \<Rightarrow> bool" where
  "grows st st' =
     ((\<forall>k v. map_of (student_number_mapping st) k = Some v
          \<longrightarrow> map_of (student_number_mapping st') k = Some v)
      \<and> (\<forall>k v. map_of (student_id_mapping st) k = Some v
          \<longrightarrow> map_of (student_id_mapping st') k = Some v))"

text \<open>The relation between the states before and after a part of the first pass.\<close>

definition tables_kept :: "maps \<times> rng \<Rightarrow> maps \<times> rng \<Rightarrow> bool" where
  "tables_kept s s' =
     (grows (fst s) (fst s')
      \<and> (numbers_reversed (fst s) \<longrightarrow> numbers_reversed (fst s'))
      \<and> (ids_digits (fst s) \<longrightarrow> ids_digits (fst s')))"

text \<open>
  A relation between states that holds across the first pass as soon as it holds across
  the rules of one node: it is reflexive and transitive.
\<close>

definition pass_relation :: "(maps \<times> rng \<Rightarrow> maps \<times> rng \<Rightarrow> bool) \<Rightarrow> bool" where
  "pass_relation R =
     ((\<forall>s. R s s) \<and> (\<forall>a b c. R a b \<longrightarrow> R b c \<longrightarrow> R a c)
      \<and> (\<forall>obj s s'. collect_node obj s = Inr s' \<longrightarrow> R s s'))"

subsection \<open>The Name Mapping during the first pass\<close>

text \<open>
  The keys that \<^verbatim>\<open>anonymize_json\<close> enters before the first pass, and the names that
  \<^verbatim>\<open>generate_fake_name\<close> returns after a hundred collisions.
\<close>

definition teacher_key :: "hkey \<Rightarrow> bool" where
  "teacher_key k = (k = HStr ''Stewart Chan'' \<or> k = HStr ''Test Teacher'')"

definition is_fallback :: "string \<Rightarrow> bool" where
  "is_fallback v = (\<exists>index. v = fallback_name index)"

text \<open>
  \<open>names_distinct\<close>: the keys of the Name Mapping are distinct and two keys share a
  synthetic name only if it is a fallback name. \<open>names_distinct_but_teacher\<close> also lets
  the two teacher keys share the name \<^verbatim>\<open>Dev CodePet\<close>.
\<close>

definition names_distinct :: "maps \<Rightarrow> bool" where
  "names_distinct st =
     (distinct (map fst (name_mapping st))
      \<and> (\<forall>k1 k2 v. k1 \<noteq> k2 \<and> map_of (name_mapping st) k1 = Some v
             \<and> map_of (name_mapping st) k2 = Some v \<longrightarrow> is_fallback v))"

definition names_distinct_but_teacher :: "maps \<Rightarrow> bool" where
  "names_distinct_but_teacher st =
     (distinct (map fst (name_mapping st))
      \<and> (\<forall>k1 k2 v. k1 \<noteq> k2 \<and> map_of (name_mapping st) k1 = Some v
             \<and> map_of (name_mapping st) k2 = Some v
           \<longrightarrow> (teacher_key k1 \<and> teacher_key k2 \<and> v = ''Dev CodePet'') \<or> is_fallback v))"

text \<open>
  The states of the tables at the points of the first pass: the state before it, and
  the state after each statement that assigns to a table.
\<close>

inductive pass_state :: "maps \<Rightarrow> bool" where
  start: "pass_state init_maps"
| teacher: "pass_state st \<Longrightarrow> pass_state (collect_teacher obj st)"
| name: "pass_state st \<Longrightarrow> map_name name st = Inr st' \<Longrightarrow> pass_state st'"
| number: "pass_state st \<Longrightarrow> pass_state (map_student_number student_number st)"
| student_id:
    "pass_state st \<Longrightarrow> collect_student_id obj (st, g) = Inr (st', g') \<Longrightarrow> pass_state st'"

text \<open>What the first pass keeps true of the Name Mapping and the Used-Names Set.\<close>

definition names_inv :: "maps \<Rightarrow> bool" where
  "names_inv st =
     (distinct (map fst (name_mapping st))
      \<and> map_of (name_mapping st) (HStr ''Stewart Chan'') = Some ''Dev CodePet''
      \<and> map_of (name_mapping st) (HStr ''Test Teacher'') = Some ''Dev CodePet''
      \<and> (\<forall>k v. map_of (name_mapping st) k = Some v \<and> \<not> teacher_key k
             \<longrightarrow> (v \<in> used_names st \<and> v \<noteq> ''Dev CodePet'') \<or> is_fallback v)
      \<and> (\<forall>k1 k2 v. k1 \<noteq> k2 \<and> map_of (name_mapping st) k1 = Some v
             \<and> map_of (name_mapping st) k2 = Some v
           \<longrightarrow> (teacher_key k1 \<and> teacher_key k2) \<or> is_fallback v))"

subsection \<open>Structural congruence\<close>

text \<open>
  \<open>congruent quiz_rule under_quiz v out\<close> compares an output node with the input node it
  corresponds to. An output dict must correspond to an input dict, and have the keys of
  that dict and no others but those allowed. The keys allowed beside the input's are
  \<^verbatim>\<open>updatedAt\<close> and \<^verbatim>\<open>attachments\<close> on a dict that has both \<^verbatim>\<open>studentEmail\<close> and
  \<^verbatim>\<open>studentName\<close>. With \<open>quiz_rule\<close>, a dict that is the value of a \<^verbatim>\<open>quizData\<close> key
  (\<open>under_quiz\<close>) is allowed the eleven backfill keys instead. An output list must
  correspond to an input list of the same length, and the items are compared in turn.

  Every value of an output dict is compared in turn. The value under a key of the input
  dict corresponds to the input value under that key. The value under an \<^verbatim>\<open>updatedAt\<close> key
  that the input dict lacks corresponds to the input value under \<^verbatim>\<open>submittedAt\<close>, from
  whose output it is taken (\<open>counterpart\<close>). Any other value under a key that the input
  dict lacks has no counterpart: it must be the empty list under \<^verbatim>\<open>attachments\<close>, or
  neither a dict nor a list.
\<close>

definition submission_shaped :: "(string \<times> json) list \<Rightarrow> bool" where
  "submission_shaped obj =
     (map_of obj ''studentEmail'' \<noteq> None \<and> map_of obj ''studentName'' \<noteq> None)"

definition allowed_extra :: "bool \<Rightarrow> bool \<Rightarrow> (string \<times> json) list \<Rightarrow> string set" where
  "allowed_extra quiz_rule under_quiz obj =
     (if quiz_rule \<and> under_quiz then set quiz_fields
      else if submission_shaped obj then {''updatedAt'', ''attachments''}
      else {})"

definition keys_congruent :: "string set \<Rightarrow> (string \<times> json) list \<Rightarrow> (string \<times> json) list \<Rightarrow> bool" where
  "keys_congruent extra obj new =
     (set (map fst obj) \<subseteq> set (map fst new)
      \<and> set (map fst new) \<subseteq> set (map fst obj) \<union> extra)"

definition counterpart :: "(string \<times> json) list \<Rightarrow> string \<Rightarrow> json option" where
  "counterpart obj key =
     (case map_of obj key of
        Some v \<Rightarrow> Some v
      | None \<Rightarrow> (if key = ''updatedAt'' then map_of obj ''submittedAt'' else None))"

fun congruent :: "bool \<Rightarrow> bool \<Rightarrow> json \<Rightarrow> json \<Rightarrow> bool"
  and congruent_entries :: "bool \<Rightarrow> (string \<times> json) list \<Rightarrow> (string \<times> json) list \<Rightarrow> bool"
  and congruent_items :: "bool \<Rightarrow> json list \<Rightarrow> json list \<Rightarrow> bool"
where
  "congruent quiz_rule under_quiz v (JDict new) =
     (case v of
        JDict obj \<Rightarrow>
          keys_congruent (allowed_extra quiz_rule under_quiz obj) obj new
          \<and> congruent_entries quiz_rule obj new
      | _ \<Rightarrow> False)"
| "congruent quiz_rule under_quiz v (JList ys) =
     (case v of JList xs \<Rightarrow> congruent_items quiz_rule xs ys | _ \<Rightarrow> False)"
| "congruent quiz_rule under_quiz v JNull = True"
| "congruent quiz_rule under_quiz v (JBool b) = True"
| "congruent quiz_rule under_quiz v (JInt i) = True"
| "congruent quiz_rule under_quiz v (JFloat r) = True"
| "congruent quiz_rule under_quiz v (JStr s) = True"
| "congruent_entries quiz_rule obj [] = True"
| "congruent_entries quiz_rule obj (kv # rest) =
     ((case counterpart obj (fst kv) of
         Some v \<Rightarrow> congruent quiz_rule (fst kv = ''quizData'') v (snd kv)
       | None \<Rightarrow> (fst kv = ''attachments'' \<and> snd kv = JList []) \<or> \<not> is_container (snd kv))
      \<and> congruent_entries quiz_rule obj rest)"
| "congruent_items quiz_rule xs [] = (xs = [])"
| "congruent_items quiz_rule xs (y # ys) =
     (case xs of
        x # xs' \<Rightarrow> congruent quiz_rule False x y \<and> congruent_items quiz_rule xs' ys
      | [] \<Rightarrow> False)"

text \<open>The comparison of one entry of an output dict, as \<open>congruent_entries\<close> makes it.\<close>

definition value_congruent :: "bool \<Rightarrow> (string \<times> json) list \<Rightarrow> string \<times> json \<Rightarrow> bool" where
  "value_congruent quiz_rule obj kv =
     (case counterpart obj (fst kv) of
        Some v \<Rightarrow> congruent quiz_rule (fst kv = ''quizData'') v (snd kv)
      | None \<Rightarrow> (fst kv = ''attachments'' \<and> snd kv = JList []) \<or> \<not> is_container (snd kv))"

subsection \<open>Example documents\<close>

text \<open>A student ID at the root and in a nested record, the tables and the output of a run.\<close>

definition id_example :: json where
  "id_example =
     JDict [(''studentId'', JStr ''abc''),
            (''items'', JList [JDict [(''studentId'', JStr ''abc'')]])]"

definition id_example_out :: json where
  "id_example_out =
     JDict [(''studentId'', JStr ''000''),
            (''items'', JList [JDict [(''studentId'', JStr ''000'')]])]"

definition id_example_maps :: maps where
  "id_example_maps = init_maps\<lparr>student_id_mapping := [(''abc'', ''000'')]\<rparr>"

text \<open>One student number under \<^verbatim>\<open>email\<close> and, nested, under \<^verbatim>\<open>studentEmail\<close>.\<close>

definition email_example :: json where
  "email_example =
     JDict [(''email'', JStr ''123456789@gapps.yrdsb.ca''),
            (''submissions'',
               JList [JDict [(''studentEmail'', JStr ''123456789@gapps.yrdsb.ca'')]])]"

definition email_example_out :: json where
  "email_example_out =
     JDict [(''email'', JStr ''987654321@gapps.yrdsb.ca''),
            (''submissions'',
               JList [JDict [(''studentEmail'', JStr ''987654321@gapps.yrdsb.ca'')]])]"

text \<open>
  A graded submission without timestamps, and one that already has attachments, with
  the outputs of their runs.
\<close>

definition submission_fields :: "(string \<times> json) list" where
  "submission_fields =
     [(''studentEmail'', JStr ''casey@example.org''),
      (''studentName'', JStr ''Casey''),
      (''grade'', JDict [(''score'', JInt 90), (''gradedBy'', JStr ''teacher'')])]"

definition submission_example :: json where
  "submission_example = JDict submission_fields"

definition submission_example_out :: json where
  "submission_example_out =
     JDict [(''studentEmail'', JStr ''casey@example.org''),
            (''studentName'', JStr ''Casey''),
            (''grade'', JDict [(''score'', JInt 90), (''gradedBy'', JStr ''manual'')]),
            (''updatedAt'', JStr ''2025-01-15T12:00:00.000Z''),
            (''attachments'', JList [])]"

definition attached_example :: json where
  "attached_example =
     JDict [(''studentEmail'', JStr ''casey@example.org''),
            (''studentName'', JStr ''Casey''),
            (''grade'', JDict [(''gradedBy'', JStr ''teacher'')]),
            (''attachments'', JList [JInt 1])]"

definition attached_example_out :: json where
  "attached_example_out =
     JDict [(''studentEmail'', JStr ''casey@example.org''),
            (''studentName'', JStr ''Casey''),
            (''grade'', JDict [(''gradedBy'', JStr ''manual'')]),
            (''attachments'', JList [JInt 1]),
            (''updatedAt'', JStr ''2025-01-15T12:00:00.000Z'')]"

text \<open>
  A student record, the output of its run, the output of a run on that output, and the
  output of the run on the teacher's record.
\<close>

definition rerun_in :: json where
  "rerun_in =
     JDict [(''name'', JStr ''Jordan Lee''), (''email'', JStr ''123456789@gapps.yrdsb.ca'')]"

definition rerun_out :: json where
  "rerun_out =
     JDict [(''name'', JStr ''Charlie Clark''), (''email'', JStr ''987654321@gapps.yrdsb.ca'')]"

definition rerun_again :: json where
  "rerun_again =
     JDict [(''name'', JStr ''Charlie Clark''), (''email'', JStr ''123456789@gapps.yrdsb.ca'')]"

definition teacher_out :: json where
  "teacher_out =
     JDict [(''email'', JStr ''dev.codepet@gmail.com''), (''name'', JStr ''Dev CodePet'')]"

text \<open>The tables after the first student name has been mapped.\<close>

definition named_maps :: maps where
  "named_maps =
     init_maps\<lparr>name_mapping :=
                  [(HStr ''Stewart Chan'', ''Dev CodePet''), (HStr ''Test Teacher'', ''Dev CodePet''),
                   (HStr ''Jordan Lee'', ''Charlie Clark'')],
               used_names := {''Charlie Clark''}\<rparr>"

definition names_example :: json where
  "names_example =
     JDict [(''name'', JStr ''Sam Roe''), (''email'', JStr ''123456789@gapps.yrdsb.ca'')]"

definition names_example_maps :: maps where
  "names_example_maps =
     named_maps\<lparr>name_mapping :=
                   [(HStr ''Stewart Chan'', ''Dev CodePet''), (HStr ''Test Teacher'', ''Dev CodePet''),
                    (HStr ''Jordan Lee'', ''Charlie Clark''), (HStr ''Sam Roe'', ''Diana Davis'')],
                 student_number_mapping := [(''123456789'', ''987654321'')],
                 used_names := {''Charlie Clark'', ''Diana Davis''}\<rparr>"

text \<open>
  A course whose first assignment holds the quiz scenario, a course whose first
  assignment holds a quiz dict with identifiers, a quiz dict inside a quiz dict, a quiz
  dict inside the value of a URL-bearing key, and a student ID beside a quiz dict that
  holds the same ID; each with the output of its run.
\<close>

definition quiz_course :: json where
  "quiz_course =
     JDict [(''assignments'',
             JList [JDict [(''title'', JStr ''Quiz 1''),
                           (''quizData'', JDict [(''questions'', JList [JInt 1, JInt 2, JInt 3])])]])]"

definition quiz_course_out :: json where
  "quiz_course_out =
     JDict [(''assignments'',
             JList [JDict [(''title'', JStr ''Quiz 1''),
                           (''quizData'', quiz_scenario_out 100000)]])]"

definition frame_course :: json where
  "frame_course = JDict [(''assignments'', JList [JDict [(''quizData'', quiz_frame_in)]])]"

definition frame_course_out :: json where
  "frame_course_out = JDict [(''assignments'', JList [JDict [(''quizData'', quiz_frame_out)]])]"

definition nested_quiz :: json where
  "nested_quiz =
     JDict [(''quizData'',
             JDict [(''quizData'', JDict [(''questions'', JList [JInt 1, JInt 2, JInt 3])])])]"

definition nested_quiz_out :: json where
  "nested_quiz_out =
     JDict [(''quizData'',
             JDict [(''quizData'', JDict [(''questions'', JList [JInt 1, JInt 2, JInt 3])]),
                    (''formId'', JStr ''quiz_form_100000''),
                    (''formUrl'', JStr ''https://forms.example.com/placeholder''),
                    (''title'', JStr ''Sample Quiz''),
                    (''isQuiz'', JBool True),
                    (''collectEmailAddresses'', JBool True),
                    (''allowResponseEditing'', JBool False),
                    (''totalQuestions'', JInt 0),
                    (''totalPoints'', JInt 100),
                    (''autoGradableQuestions'', JInt 0),
                    (''manualGradingRequired'', JBool True),
                    (''requireSignIn'', JBool True)])]"

definition linked_quiz :: json where
  "linked_quiz =
     JDict [(''alternateLink'',
             JDict [(''quizData'', JDict [(''title'', JStr ''docs.google.com/forms'')])])]"

definition linked_quiz_out :: json where
  "linked_quiz_out = JDict [(''alternateLink'', JStr ''https://forms.example.com/placeholder'')]"

definition quiz_id_example :: json where
  "quiz_id_example =
     JDict [(''studentId'', JStr ''abc''),
            (''quizData'', JDict [(''studentId'', JStr ''abc'')])]"

definition quiz_id_example_out :: json where
  "quiz_id_example_out =
     JDict [(''studentId'', JStr ''000''),
            (''quizData'',
             JDict [(''studentId'', JStr ''abc''),
                    (''formId'', JStr ''quiz_form_100000''),
                    (''formUrl'', JStr ''https://forms.example.com/placeholder''),
                    (''title'', JStr ''Sample Quiz''),
                    (''isQuiz'', JBool True),
                    (''collectEmailAddresses'', JBool True),
                    (''allowResponseEditing'', JBool False),
                    (''totalQuestions'', JInt 0),
                    (''totalPoints'', JInt 100),
                    (''autoGradableQuestions'', JInt 0),
                    (''manualGradingRequired'', JBool True),
                    (''requireSignIn'', JBool True)])]"

text \<open>
  A submission whose \<^verbatim>\<open>submittedAt\<close> is a dict and that holds a quiz dict, and the output
  of its run.
\<close>

definition shape_example :: json where
  "shape_example =
     JList [JDict [(''studentEmail'', JStr ''123456789@gapps.yrdsb.ca''),
                   (''studentName'', JStr ''Jordan Lee''),
                   (''submittedAt'', JDict [(''seconds'', JInt 5)]),
                   (''quizData'', JDict [(''questions'', JList [JInt 1, JInt 2, JInt 3])])]]"

definition shape_example_out :: json where
  "shape_example_out =
     JList [JDict [(''studentEmail'', JStr ''987654321@gapps.yrdsb.ca''),
                   (''studentName'', JStr ''Charlie Clark''),
                   (''submittedAt'', JDict [(''seconds'', JInt 5)]),
                   (''quizData'', quiz_scenario_out 100000),
                   (''updatedAt'', JDict [(''seconds'', JInt 5)]),
                   (''attachments'', JList [])]]"
section \<open>Lemmas about the two passes\<close>

subsection \<open>The loops of the second pass\<close>

lemma update_absent: "k \<notin> set (map fst al) \<Longrightarrow> AList.update k v al = al @ [(k, v)]"
  by (induction al) auto

lemma replace_entries_char:
  "replace_entries st kvs acc g = Inr (out, g') \<Longrightarrow> distinct (map fst kvs)
   \<Longrightarrow> set (map fst kvs) \<inter> set (map fst acc) = {}
   \<Longrightarrow> \<exists>vs. length vs = length kvs \<and> out = acc @ zip (map fst kvs) vs
          \<and> (\<forall>i<length kvs. entry_out st (kvs ! i) (vs ! i))"
proof (induction kvs arbitrary: acc g)
  case Nil
  then show ?case by simp
next
  case (Cons kv rest)
  have fresh: "fst kv \<notin> set (map fst acc)" using Cons.prems(3) by auto
  have d: "distinct (map fst rest)" using Cons.prems(2) by simp
  obtain v g1 where step: "entry_out st kv v"
    and rec: "replace_entries st rest (AList.update (fst kv) v acc) g1 = Inr (out, g')"
    using Cons.prems(1)
    by (auto simp: entry_out_def split: sum.splits option.splits if_splits prod.splits; blast)
  have upd: "AList.update (fst kv) v acc = acc @ [(fst kv, v)]"
    using fresh by (rule update_absent)
  have disj: "set (map fst rest) \<inter> set (map fst (AList.update (fst kv) v acc)) = {}"
    using Cons.prems(2,3) by (auto simp: upd)
  from Cons.IH[OF rec d disj] obtain vs where vs: "length vs = length rest"
    "out = AList.update (fst kv) v acc @ zip (map fst rest) vs"
    "\<forall>i<length rest. entry_out st (rest ! i) (vs ! i)" by blast
  have "\<forall>i<length (kv # rest). entry_out st ((kv # rest) ! i) ((v # vs) ! i)"
    using step vs(3) by (auto simp: nth_Cons split: nat.splits)
  moreover have "out = acc @ zip (map fst (kv # rest)) (v # vs)"
    using vs(2) upd by simp
  ultimately show ?case using vs(1) by (intro exI[of _ "v # vs"]) simp
qed

lemma replace_items_char:
  "replace_items st xs g = Inr (ys, g') \<Longrightarrow>
     length ys = length xs \<and>
     (\<forall>i<length xs. \<exists>g1 g2. replace_identifiers st (xs ! i) g1 = Inr (ys ! i, g2))"
proof (induction xs arbitrary: ys g)
  case Nil
  then show ?case by simp
next
  case (Cons x xs)
  from Cons.prems obtain y g1 ys' where
    y: "replace_identifiers st x g = Inr (y, g1)"
    and r: "replace_items st xs g1 = Inr (ys', g')" and e: "ys = y # ys'"
    by (auto split: sum.splits prod.splits)
  from Cons.IH[OF r] y e show ?case
    by (auto simp: nth_Cons split: nat.splits)
qed


lemma map_of_nth_entry:
  "map_of obj k = Some v \<Longrightarrow> \<exists>i<length obj. obj ! i = (k, v)"
  by (metis in_set_conv_nth map_of_SomeD)

lemma replace_dict_char:
  assumes "replace_identifiers st (JDict obj) g = Inr (r, g')" and "distinct (map fst obj)"
  shows "\<exists>new. r = JDict (fix_submission new) \<and> map fst new = map fst obj
           \<and> (\<forall>k v. map_of obj k = Some v
                  \<longrightarrow> (\<exists>v'. map_of new k = Some v' \<and> entry_out st (k, v) v'))"
proof -
  from assms(1) obtain new where
    e: "replace_entries st obj [] g = Inr (new, g')" and r: "r = JDict (fix_submission new)"
    by (auto split: sum.splits prod.splits)
  from replace_entries_char[OF e assms(2)] obtain vs where
    vs: "length vs = length obj" "new = zip (map fst obj) vs"
        "\<forall>i<length obj. entry_out st (obj ! i) (vs ! i)" by auto
  have keys: "map fst new = map fst obj" using vs(1,2) by simp
  have "\<exists>v'. map_of new k = Some v' \<and> entry_out st (k, v) v'" if "map_of obj k = Some v" for k v
  proof -
    from map_of_nth_entry[OF that] obtain i where i: "i < length obj" "obj ! i = (k, v)" by blast
    have "map_of (zip (map fst obj) vs) (map fst obj ! i) = Some (vs ! i)"
      using vs(1) assms(2) i(1) by (intro map_of_zip_nth) simp_all
    then have "map_of new k = Some (vs ! i)" using i vs(2) by simp
    moreover have "entry_out st (k, v) (vs ! i)" using vs(3) i by force
    ultimately show ?thesis by blast
  qed
  then show ?thesis using r keys by blast
qed

lemma set_default_keep:
  "k \<in> set (map fst d) \<Longrightarrow> map_of (set_default k' v d) k = map_of d k"
  by (cases "k = k'") (auto simp: set_default_def update_conv' map_of_eq_None_iff)

lemma set_default_keys:
  "k \<in> set (map fst d) \<Longrightarrow> k \<in> set (map fst (set_default k' v d))"
  by (auto simp: set_default_def dom_update)

lemma fix_grade_keep: "k \<noteq> ''grade'' \<Longrightarrow> map_of (fix_grade d) k = map_of d k"
  by (simp add: fix_grade_def update_conv' split: option.splits json.splits)

lemma fix_submission_keep:
  assumes "k \<in> set (map fst new)" and "k \<noteq> ''grade''"
  shows "map_of (fix_submission new) k = map_of new k"
proof (cases "map_of new ''studentEmail'' \<noteq> None \<and> map_of new ''studentName'' \<noteq> None")
  case False
  then show ?thesis by (auto simp: fix_submission_def)
next
  case True
  define o1 where "o1 = set_default ''updatedAt''
     (case map_of new ''submittedAt'' of Some v \<Rightarrow> v | None \<Rightarrow> JStr ''2025-01-15T12:00:00.000Z'') new"
  define o2 where "o2 = set_default ''attachments'' (JList []) o1"
  have f: "fix_submission new = fix_grade o2"
    using True by (simp add: fix_submission_def o1_def o2_def)
  have k1: "k \<in> set (map fst o1)" unfolding o1_def using assms(1) by (rule set_default_keys)
  have "map_of o2 k = map_of o1 k" unfolding o2_def using k1 by (rule set_default_keep)
  also have "\<dots> = map_of new k" unfolding o1_def using assms(1) by (rule set_default_keep)
  finally show ?thesis using f assms(2) by (simp add: fix_grade_keep)
qed

lemma fix_grade_grade:
  "map_of d ''grade'' = Some w \<Longrightarrow>
     map_of (fix_grade d) ''grade'' = Some w
     \<or> (\<exists>gr. w = JDict gr \<and> map_of gr ''gradedBy'' = Some (JStr ''teacher'')
           \<and> map_of (fix_grade d) ''grade''
               = Some (JDict (AList.update ''gradedBy'' (JStr ''manual'') gr)))"
  by (cases w) (simp_all add: fix_grade_def update_conv')

lemma fix_submission_grade:
  assumes "map_of new ''grade'' = Some w"
  shows "map_of (fix_submission new) ''grade'' = Some w
     \<or> (\<exists>gr. w = JDict gr \<and> map_of gr ''gradedBy'' = Some (JStr ''teacher'')
           \<and> map_of (fix_submission new) ''grade''
               = Some (JDict (AList.update ''gradedBy'' (JStr ''manual'') gr)))"
proof (cases "map_of new ''studentEmail'' \<noteq> None \<and> map_of new ''studentName'' \<noteq> None")
  case False
  then show ?thesis using assms by (auto simp: fix_submission_def)
next
  case True
  define o1 where "o1 = set_default ''updatedAt''
     (case map_of new ''submittedAt'' of Some v \<Rightarrow> v | None \<Rightarrow> JStr ''2025-01-15T12:00:00.000Z'') new"
  define o2 where "o2 = set_default ''attachments'' (JList []) o1"
  have f: "fix_submission new = fix_grade o2"
    using True by (simp add: fix_submission_def o1_def o2_def)
  have k0: "''grade'' \<in> set (map fst new)"
    using assms by (metis map_of_eq_None_iff option.distinct(1) set_map)
  have k1: "''grade'' \<in> set (map fst o1)" unfolding o1_def using k0 by (rule set_default_keys)
  have "map_of o2 ''grade'' = map_of o1 ''grade''" unfolding o2_def using k1 by (rule set_default_keep)
  also have "\<dots> = map_of new ''grade''" unfolding o1_def using k0 by (rule set_default_keep)
  finally have "map_of o2 ''grade'' = Some w" using assms by simp
  from fix_grade_grade[OF this] show ?thesis unfolding f .
qed

lemma replace_rest_container:
  "is_container c \<Longrightarrow> descends k c \<Longrightarrow> replace_rest k c g \<noteq> Inr (Some v', g1)"
  by (cases c) (simp_all add: is_container_def descends_def replace_rest_def)

lemma replace_ids_container:
  "is_container c \<Longrightarrow> descends k c \<Longrightarrow> replace_ids st k c g \<noteq> Inr (Some v', g1)"
  using replace_rest_container[of c k g v' g1]
  by (cases c) (simp_all add: is_container_def replace_ids_def lookup_student_id_def)

lemma no_special_on_container:
  "is_container c \<Longrightarrow> descends k c \<Longrightarrow> replace_value st k c g \<noteq> Inr (Some v', g1)"
  using replace_ids_container[of c k st g v' g1]
  by (cases c)
     (simp_all add: is_container_def replace_value_def replace_student_email_def lookup_name_def)

lemma entry_out_descend:
  "entry_out st (k, c) v' \<Longrightarrow> is_container c \<Longrightarrow> descends k c
     \<Longrightarrow> \<exists>g1 g2. replace_identifiers st c g1 = Inr (v', g2)"
  using no_special_on_container[of c k st] by (auto simp: entry_out_def)

lemma get_path_container:
  "get_path c p = Some (JDict obj) \<Longrightarrow> is_container c"
  by (cases "(c, p)" rule: get_path.cases) (auto simp: is_container_def)

lemma get_path_append:
  "get_path d (p @ q) = (case get_path d p of Some v \<Rightarrow> get_path v q | None \<Rightarrow> None)"
  by (induction d p rule: get_path.induct) (auto split: option.splits)

lemma wf_json_map_of: "wf_json (JDict kvs) \<Longrightarrow> map_of kvs k = Some v \<Longrightarrow> wf_json v"
  by (auto simp: list_all_iff dest!: map_of_SomeD)

lemma wf_get_path: "wf_json d \<Longrightarrow> get_path d p = Some v \<Longrightarrow> wf_json v"
proof (induction p arbitrary: d)
  case Nil
  then show ?case by simp
next
  case (Cons s p)
  show ?case
  proof (cases s)
    case (Key k)
    with Cons.prems(2) obtain kvs c where d: "d = JDict kvs" "map_of kvs k = Some c"
      "get_path c p = Some v"
      by (cases d) (auto split: option.splits)
    have "wf_json c" using Cons.prems(1) d(1,2) wf_json_map_of by blast
    then show ?thesis using Cons.IH d(3) by blast
  next
    case (Idx i)
    with Cons.prems(2) obtain xs where d: "d = JList xs" "i < length xs"
      "get_path (xs ! i) p = Some v"
      by (cases d) (auto split: if_splits)
    have "wf_json (xs ! i)" using Cons.prems(1) d(1,2) by (simp add: list_all_length)
    then show ?thesis using Cons.IH d(3) by blast
  qed
qed

lemma get_path_regrade:
  assumes "map_of gr ''gradedBy'' = Some (JStr t)" and "p \<noteq> []"
    and "get_path (JDict gr) p = Some (JDict x)"
  shows "get_path (JDict (AList.update ''gradedBy'' (JStr m) gr)) p = Some (JDict x)"
proof (cases p)
  case Nil
  with assms(2) show ?thesis by simp
next
  case (Cons s q)
  show ?thesis
  proof (cases s)
    case (Key k)
    show ?thesis
    proof (cases "k = ''gradedBy''")
      case True
      with assms(1,3) Cons Key have "get_path (JStr t) q = Some (JDict x)" by simp
      then show ?thesis by (cases q) auto
    next
      case False
      with assms(3) Cons Key show ?thesis by (simp add: update_conv')
    qed
  next
    case (Idx i)
    with assms(3) Cons show ?thesis by simp
  qed
qed

lemma node_at_path:
  "replace_identifiers st d g = Inr (d', g') \<Longrightarrow> wf_json d \<Longrightarrow> reached d p
   \<Longrightarrow> get_path d p = Some (JDict obj)
   \<Longrightarrow> \<exists>n n' g1 g2. replace_identifiers st (JDict obj) g1 = Inr (JDict n, g2)
          \<and> regraded n n' \<and> get_path d' p = Some (JDict n')"
proof (induction p arbitrary: d d' g g')
  case Nil
  then have d: "d = JDict obj" by simp
  with Nil.prems(1) obtain n where "d' = JDict n" by (auto split: sum.splits prod.splits)
  with Nil.prems(1) d show ?case by (auto simp: regraded_def)
next
  case (Cons s p)
  show ?case
  proof (cases s)
    case (Key k)
    with Cons.prems(3) obtain kvs where d: "d = JDict kvs" by (cases d) auto
    with Cons.prems(3,4) Key obtain c where c: "map_of kvs k = Some c" "descends k c"
      "reached c p" "get_path c p = Some (JDict obj)"
      by (auto split: option.splits)
    have wfc: "wf_json c" using Cons.prems(2) c(1) d wf_json_map_of by blast
    have cont: "is_container c" using c(4) by (rule get_path_container)
    have dk: "distinct (map fst kvs)" using Cons.prems(2) d by simp
    from replace_dict_char[OF Cons.prems(1)[unfolded d] dk] c(1)
    obtain new v' where new: "d' = JDict (fix_submission new)" "map fst new = map fst kvs"
      "map_of new k = Some v'" "entry_out st (k, c) v'" by blast
    from entry_out_descend[OF new(4) cont c(2)] obtain g1 g2 where
      "replace_identifiers st c g1 = Inr (v', g2)" by blast
    from Cons.IH[OF this wfc c(3,4)] obtain n n' h1 h2 where
      ih: "replace_identifiers st (JDict obj) h1 = Inr (JDict n, h2)" "regraded n n'"
          "get_path v' p = Some (JDict n')" by blast
    show ?thesis
    proof (cases "k = ''grade''")
      case False
      have "k \<in> set (map fst new)" using new(3) by (metis map_of_eq_None_iff option.distinct(1) set_map)
      then have "map_of (fix_submission new) k = Some v'"
        using fix_submission_keep[OF _ False] new(3) by simp
      then have "get_path d' (s # p) = Some (JDict n')" using ih(3) new(1) Key by simp
      then show ?thesis using ih(1,2) by blast
    next
      case True
      from fix_submission_grade[OF new(3)[unfolded True]]
      consider "map_of (fix_submission new) ''grade'' = Some v'"
        | gr where "v' = JDict gr" "map_of gr ''gradedBy'' = Some (JStr ''teacher'')"
            "map_of (fix_submission new) ''grade''
               = Some (JDict (AList.update ''gradedBy'' (JStr ''manual'') gr))"
        by blast
      then show ?thesis
      proof cases
        case 1
        then have "get_path d' (s # p) = Some (JDict n')" using ih(3) new(1) Key True by simp
        then show ?thesis using ih(1,2) by blast
      next
        case 2
        show ?thesis
        proof (cases "p = []")
          case pnil: True
          with ih(3) 2(1) have gr: "n' = gr" by simp
          have "n' = n" using ih(2) gr 2(2) by (auto simp: regraded_def update_conv')
          then have "regraded n (AList.update ''gradedBy'' (JStr ''manual'') gr)"
            using gr 2(2) by (simp add: regraded_def)
          moreover have "get_path d' (s # p) = Some (JDict (AList.update ''gradedBy'' (JStr ''manual'') gr))"
            using new(1) Key True 2(3) pnil by simp
          ultimately show ?thesis using ih(1) by blast
        next
          case False
          from get_path_regrade[OF 2(2) False ih(3)[unfolded 2(1)]]
          have "get_path d' (s # p) = Some (JDict n')" using new(1) Key True 2(3) by simp
          then show ?thesis using ih(1,2) by blast
        qed
      qed
    qed
  next
    case (Idx i)
    with Cons.prems(3) obtain xs where d: "d = JList xs" by (cases d) auto
    with Cons.prems(3,4) Idx have i: "i < length xs" "reached (xs ! i) p"
      "get_path (xs ! i) p = Some (JDict obj)" by (auto split: if_splits)
    have wfi: "wf_json (xs ! i)" using Cons.prems(2) d i(1) by (simp add: list_all_length)
    from Cons.prems(1) d obtain ys where ys: "d' = JList ys" "replace_items st xs g = Inr (ys, g')"
      by (auto split: sum.splits prod.splits)
    from replace_items_char[OF ys(2)] i(1) obtain g1 g2 where
      r: "length ys = length xs" "replace_identifiers st (xs ! i) g1 = Inr (ys ! i, g2)" by blast
    from Cons.IH[OF r(2) wfi i(2,3)] obtain n n' h1 h2 where
      ih: "replace_identifiers st (JDict obj) h1 = Inr (JDict n, h2)" "regraded n n'"
          "get_path (ys ! i) p = Some (JDict n')" by blast
    have "get_path d' (s # p) = Some (JDict n')" using ys(1) Idx i(1) r(1) ih(3) by simp
    then show ?thesis using ih(1,2) by blast
  qed
qed

lemma entry_out_special:
  assumes "\<And>g. \<exists>g1. replace_value st k v g = Inr (Some (f g), g1)"
    and "entry_out st (k, v) v'"
  shows "\<exists>g. v' = f g"
proof -
  from assms(2) obtain g g1 where
    c: "replace_value st k v g = Inr (Some v', g1) \<or> replace_value st k v g = Inr (None, g1)"
    unfolding entry_out_def by auto
  from assms(1) obtain g1' where "replace_value st k v g = Inr (Some (f g), g1')" by blast
  with c have "v' = f g" by auto
  then show ?thesis by (rule exI[of _ g])
qed

lemma in_keys: "map_of d k = Some v \<Longrightarrow> k \<in> set (map fst d)"
  by (metis map_of_eq_None_iff option.distinct(1) set_map)

lemma regraded_keep: "regraded n n' \<Longrightarrow> k \<noteq> ''gradedBy'' \<Longrightarrow> map_of n' k = map_of n k"
  by (auto simp: regraded_def update_conv')

lemma entry_at_path:
  assumes "replace_identifiers st d g = Inr (d', g')" and "wf_json d" and "reached d p"
    and "get_path d p = Some (JDict obj)" and "map_of obj k = Some v"
    and "k \<noteq> ''grade''" and "k \<noteq> ''gradedBy''"
  shows "\<exists>v'. get_path d' (p @ [Key k]) = Some v' \<and> entry_out st (k, v) v'"
proof -
  from node_at_path[OF assms(1-4)] obtain n n' g1 g2 where
    n: "replace_identifiers st (JDict obj) g1 = Inr (JDict n, g2)" "regraded n n'"
       "get_path d' p = Some (JDict n')" by blast
  have "wf_json (JDict obj)" using wf_get_path[OF assms(2,4)] .
  then have dist: "distinct (map fst obj)" by simp
  from replace_dict_char[OF n(1) dist] assms(5) obtain new v' where
    new: "n = fix_submission new" "map_of new k = Some v'" "entry_out st (k, v) v'" by blast
  have "map_of n k = Some v'"
    unfolding new(1) using fix_submission_keep[OF in_keys[OF new(2)] assms(6)] new(2) by simp
  then have "map_of n' k = Some v'" using regraded_keep[OF n(2) assms(7)] by simp
  then have "get_path d' (p @ [Key k]) = Some v'"
    using n(3) by (simp add: get_path_append)
  then show ?thesis using new(3) by blast
qed

subsection \<open>Evaluating the script on a given document\<close>

lemma set_default_Nil: "set_default k v [] = [(k, v)]"
  by (simp add: set_default_def)

lemma set_default_Cons:
  "set_default k v (kv # d) = (if fst kv = k then kv # d else kv # set_default k v d)"
  by (cases kv) (auto simp: set_default_def)

lemmas collect_defs = collect_node_def collect_student_def collect_teacher_def
  collect_email_def collect_student_id_def student_number_of_def map_student_number_def
  map_name_def py_key_def init_maps_def student_domain_def teacher_email_def local_part_def
  py_isdigit_def digit_char_def reverse_student_number_def

lemmas replace_defs = replace_value_def replace_ids_def replace_rest_def replace_url_def
  replace_student_email_def lookup_name_def lookup_student_id_def fix_submission_def
  fix_grade_def fix_quiz_data_def fix_form_id_def fix_total_questions_def set_default_Nil set_default_Cons is_container_def
  py_str_def py_len_def randint_def randbelow_def local_part_def py_isdigit_def
  digit_char_def reverse_student_number_def

lemma zero_rng_tail: "(\<lambda>i. zero_rng (Suc i)) = zero_rng"
  by (simp add: zero_rng_def)

section \<open>The claims\<close>

subsection \<open>The quiz-data branch\<close>

lemma replace_value_quiz:
  "replace_value st ''quizData'' (JDict qd) g =
     (case fix_quiz_data qd g of
        Inl e \<Rightarrow> Inl e
      | Inr (q, g1) \<Rightarrow> Inr (Some (JDict q), g1))"
  by (simp add: replace_value_def replace_ids_def replace_rest_def lookup_name_def)

lemma set_default_present: "k \<in> set (map fst d) \<Longrightarrow> set_default k v d = d"
  by (simp add: set_default_def map_of_eq_None_iff)

lemma set_default_absent: "k \<notin> set (map fst d) \<Longrightarrow> set_default k v d = d @ [(k, v)]"
  by (simp add: set_default_def map_of_eq_None_iff update_absent)

lemma foldl_set_default:
  "distinct (map fst kvs) \<Longrightarrow>
     foldl (\<lambda>d kv. set_default (fst kv) (snd kv) d) qd kvs
       = qd @ filter (\<lambda>kv. fst kv \<notin> set (map fst qd)) kvs"
proof (induction kvs rule: rev_induct)
  case Nil
  then show ?case by simp
next
  case (snoc kv kvs)
  let ?d = "qd @ filter (\<lambda>kv. fst kv \<notin> set (map fst qd)) kvs"
  have ih: "foldl (\<lambda>d kv. set_default (fst kv) (snd kv) d) qd kvs = ?d"
    using snoc by simp
  have fresh: "fst kv \<notin> set (map fst kvs)" using snoc.prems by simp
  show ?case
  proof (cases "fst kv \<in> set (map fst qd)")
    case True
    then have "fst kv \<in> set (map fst ?d)" by simp
    then have "set_default (fst kv) (snd kv) ?d = ?d" by (rule set_default_present)
    then show ?thesis using ih True by simp
  next
    case False
    have "fst kv \<notin> set (map fst ?d)" using False fresh by auto
    then have "set_default (fst kv) (snd kv) ?d = ?d @ [kv]"
      using set_default_absent[of "fst kv" ?d "snd kv"] by simp
    then show ?thesis using ih False by simp
  qed
qed

lemma fix_form_id_default:
  "\<exists>fid. fst (fix_form_id qd g) = set_default ''formId'' (JStr fid) qd"
  by (auto simp: fix_form_id_def set_default_def split: prod.splits)

lemma fix_total_questions_default:
  "fix_total_questions q = Inr q7 \<Longrightarrow> \<exists>n. q7 = set_default ''totalQuestions'' (JInt n) q"
  by (auto simp: fix_total_questions_def set_default_def split: if_splits sum.splits)

lemma fix_quiz_data_fold:
  assumes "fix_quiz_data qd g = Inr (q, g1)"
  shows "\<exists>fid n. q = foldl (\<lambda>d kv. set_default (fst kv) (snd kv) d) qd
           [(''formId'', JStr fid),
            (''formUrl'', JStr ''https://forms.example.com/placeholder''),
            (''title'', JStr ''Sample Quiz''),
            (''isQuiz'', JBool True),
            (''collectEmailAddresses'', JBool True),
            (''allowResponseEditing'', JBool False),
            (''totalQuestions'', JInt n),
            (''totalPoints'', JInt 100),
            (''autoGradableQuestions'', JInt 0),
            (''manualGradingRequired'', JBool True),
            (''requireSignIn'', JBool True)]"
proof -
  obtain fid where fid: "fst (fix_form_id qd g) = set_default ''formId'' (JStr fid) qd"
    using fix_form_id_default by blast
  define q6 where "q6 =
     set_default ''allowResponseEditing'' (JBool False)
       (set_default ''collectEmailAddresses'' (JBool True)
         (set_default ''isQuiz'' (JBool True)
           (set_default ''title'' (JStr ''Sample Quiz'')
             (set_default ''formUrl'' (JStr ''https://forms.example.com/placeholder'')
               (set_default ''formId'' (JStr fid) qd)))))"
  from assms fid obtain q7 where q7: "fix_total_questions q6 = Inr q7"
    and q: "q = set_default ''requireSignIn'' (JBool True)
                 (set_default ''manualGradingRequired'' (JBool True)
                   (set_default ''autoGradableQuestions'' (JInt 0)
                     (set_default ''totalPoints'' (JInt 100) q7)))"
    by (auto simp: fix_quiz_data_def q6_def split: prod.splits sum.splits)
  from fix_total_questions_default[OF q7] obtain n where
    "q7 = set_default ''totalQuestions'' (JInt n) q6" by blast
  then show ?thesis using q by (auto simp: q6_def)
qed

lemma fix_quiz_data_frame:
  assumes "fix_quiz_data qd g = Inr (q, g1)"
  shows "\<exists>added. q = qd @ added
          \<and> map fst added = filter (\<lambda>k. k \<notin> set (map fst qd)) quiz_fields
          \<and> (\<forall>kv\<in>set added. \<not> is_container (snd kv))"
proof -
  from fix_quiz_data_fold[OF assms] obtain fid n where
    q: "q = foldl (\<lambda>d kv. set_default (fst kv) (snd kv) d) qd
           [(''formId'', JStr fid),
            (''formUrl'', JStr ''https://forms.example.com/placeholder''),
            (''title'', JStr ''Sample Quiz''),
            (''isQuiz'', JBool True),
            (''collectEmailAddresses'', JBool True),
            (''allowResponseEditing'', JBool False),
            (''totalQuestions'', JInt n),
            (''totalPoints'', JInt 100),
            (''autoGradableQuestions'', JInt 0),
            (''manualGradingRequired'', JBool True),
            (''requireSignIn'', JBool True)]" (is "q = foldl ?f qd ?kvs")
    by blast
  have d: "distinct (map fst ?kvs)" by simp
  have m: "map fst ?kvs = quiz_fields" by (simp add: quiz_fields_def)
  have "q = qd @ filter (\<lambda>kv. fst kv \<notin> set (map fst qd)) ?kvs"
    unfolding q by (rule foldl_set_default[OF d])
  moreover have "map fst (filter (\<lambda>kv. fst kv \<notin> set (map fst qd)) ?kvs)
      = filter (\<lambda>k. k \<notin> set (map fst qd)) (map fst ?kvs)"
    unfolding filter_map by (simp add: comp_def)
  moreover have "\<forall>kv\<in>set (filter (\<lambda>kv. fst kv \<notin> set (map fst qd)) ?kvs). \<not> is_container (snd kv)"
    by (simp add: is_container_def)
  ultimately show ?thesis unfolding m by blast
qed

lemma quiz_scenario_value:
  "replace_value st ''quizData'' (JDict [(''questions'', JList [JInt 1, JInt 2, JInt 3])]) g =
     Inr (Some (quiz_scenario_out (100000 + g 0 mod 900000)), \<lambda>i. g (Suc i))"
  by (simp add: replace_defs quiz_scenario_out_def)

lemma quiz_course_run: "anonymize_json quiz_course zero_rng = Inr quiz_course_out"
proof -
  have c: "collect_identifiers quiz_course (init_maps, zero_rng) = Inr (init_maps, zero_rng)"
    by (simp add: quiz_course_def collect_defs)
  have r: "replace_identifiers init_maps quiz_course zero_rng = Inr (quiz_course_out, zero_rng)"
    by (simp add: quiz_course_def quiz_course_out_def quiz_scenario_out_def replace_defs
          zero_rng_tail init_maps_def)
       (simp add: zero_rng_def show_nat.simps)
  show ?thesis unfolding anonymize_json_def c by (simp only: r sum.case prod.case)
qed

text \<open>
  C7, as amended. For every document with a run that returns and every dict of it that
  the second pass rewrites and that has the entry \<^verbatim>\<open>"quizData": {"questions": [1, 2, 3]}\<close>,
  the output holds at that place under \<^verbatim>\<open>quizData\<close> the original \<^verbatim>\<open>questions\<close> entry
  followed by \<^verbatim>\<open>formId\<close> (\<^verbatim>\<open>quiz_form_\<close> and a number from 100000 to 999999), \<^verbatim>\<open>formUrl\<close>,
  \<^verbatim>\<open>title\<close>, \<^verbatim>\<open>isQuiz: true\<close>, \<^verbatim>\<open>collectEmailAddresses: true\<close>,
  \<^verbatim>\<open>allowResponseEditing: false\<close>, \<^verbatim>\<open>totalQuestions: 3\<close>, \<^verbatim>\<open>totalPoints: 100\<close>,
  \<^verbatim>\<open>autoGradableQuestions: 0\<close>, \<^verbatim>\<open>manualGradingRequired: true\<close> and \<^verbatim>\<open>requireSignIn: true\<close>.
\<close>

theorem quiz_data_scenario:
  assumes "anonymize_json d g = Inr out" and "wf_json d"
    and "reached d p" and "get_path d p = Some (JDict obj)"
    and "map_of obj ''quizData'' = Some (JDict [(''questions'', JList [JInt 1, JInt 2, JInt 3])])"
  shows "\<exists>n. 100000 \<le> n \<and> n \<le> 999999
           \<and> get_path out (p @ [Key ''quizData'']) = Some (quiz_scenario_out n)"
proof -
  from assms(1) obtain st g1 g2 where
    r: "replace_identifiers st d g1 = Inr (out, g2)"
    by (auto simp: anonymize_json_def split: sum.splits prod.splits)
  from entry_at_path[OF r assms(2,3,4,5)] obtain v' where
    v: "get_path out (p @ [Key ''quizData'']) = Some v'"
       "entry_out st (''quizData'', JDict [(''questions'', JList [JInt 1, JInt 2, JInt 3])]) v'"
    by auto
  have "\<And>g. \<exists>g1. replace_value st ''quizData''
           (JDict [(''questions'', JList [JInt 1, JInt 2, JInt 3])]) g
         = Inr (Some (quiz_scenario_out (100000 + g 0 mod 900000)), g1)"
    using quiz_scenario_value by blast
  from entry_out_special[of st _ _ "\<lambda>g. quiz_scenario_out (100000 + g 0 mod 900000)", OF this v(2)]
  obtain h :: rng where v': "v' = quiz_scenario_out (100000 + h 0 mod 900000)" by blast
  have "100000 \<le> 100000 + h 0 mod 900000" "100000 + h 0 mod 900000 \<le> 999999"
    by simp_all
  then show ?thesis using v(1) v' by blast
qed

theorem quiz_data_scenario_witness:
  "anonymize_json quiz_course zero_rng = Inr quiz_course_out
   \<and> wf_json quiz_course
   \<and> reached quiz_course [Key ''assignments'', Idx 0]
   \<and> get_path quiz_course [Key ''assignments'', Idx 0]
       = Some (JDict [(''title'', JStr ''Quiz 1''),
                      (''quizData'', JDict [(''questions'', JList [JInt 1, JInt 2, JInt 3])])])
   \<and> map_of [(''title'', JStr ''Quiz 1''),
              (''quizData'', JDict [(''questions'', JList [JInt 1, JInt 2, JInt 3])])] ''quizData''
       = Some (JDict [(''questions'', JList [JInt 1, JInt 2, JInt 3])])
   \<and> (\<exists>n. 100000 \<le> n \<and> n \<le> 999999
          \<and> get_path quiz_course_out ([Key ''assignments'', Idx 0] @ [Key ''quizData''])
              = Some (quiz_scenario_out n))
   \<and> get_path quiz_course_out [Key ''assignments'', Idx 0, Key ''quizData'', Key ''totalQuestions'']
       = Some (JInt 3)"
proof -
  have h2: "wf_json quiz_course" by (simp add: quiz_course_def)
  have h3: "reached quiz_course [Key ''assignments'', Idx 0]"
    by (simp add: quiz_course_def descends_def)
  have h4: "get_path quiz_course [Key ''assignments'', Idx 0]
       = Some (JDict [(''title'', JStr ''Quiz 1''),
                      (''quizData'', JDict [(''questions'', JList [JInt 1, JInt 2, JInt 3])])])"
    by (simp add: quiz_course_def)
  have h5: "map_of [(''title'', JStr ''Quiz 1''),
              (''quizData'', JDict [(''questions'', JList [JInt 1, JInt 2, JInt 3])])] ''quizData''
       = Some (JDict [(''questions'', JList [JInt 1, JInt 2, JInt 3])])"
    by simp
  have h6: "get_path quiz_course_out
              [Key ''assignments'', Idx 0, Key ''quizData'', Key ''totalQuestions'']
       = Some (JInt 3)"
    by (simp add: quiz_course_out_def quiz_scenario_out_def)
  from quiz_data_scenario[OF quiz_course_run h2 h3 h4 h5] quiz_course_run h2 h3 h4 h5 h6
  show ?thesis by blast
qed

text \<open>
  The claim as stated speaks of every \<^verbatim>\<open>quizData\<close> entry. The second pass copies a quiz
  dict without entering it, so a \<^verbatim>\<open>quizData\<close> entry inside a quiz dict is output as it
  is, with no field added.
\<close>

theorem nested_quiz_not_filled:
  "anonymize_json nested_quiz zero_rng = Inr nested_quiz_out
   \<and> get_path nested_quiz [Key ''quizData'', Key ''quizData'']
       = Some (JDict [(''questions'', JList [JInt 1, JInt 2, JInt 3])])
   \<and> get_path nested_quiz_out [Key ''quizData'', Key ''quizData'']
       = Some (JDict [(''questions'', JList [JInt 1, JInt 2, JInt 3])])
   \<and> get_path nested_quiz_out [Key ''quizData'', Key ''quizData'', Key ''totalQuestions'']
       = None"
proof -
  have c: "collect_identifiers nested_quiz (init_maps, zero_rng) = Inr (init_maps, zero_rng)"
    by (simp add: nested_quiz_def collect_defs)
  have r: "replace_identifiers init_maps nested_quiz zero_rng = Inr (nested_quiz_out, zero_rng)"
    by (simp add: nested_quiz_def nested_quiz_out_def replace_defs zero_rng_tail init_maps_def)
       (simp add: zero_rng_def show_nat.simps)
  have "anonymize_json nested_quiz zero_rng = Inr nested_quiz_out"
    unfolding anonymize_json_def c by (simp only: r sum.case prod.case)
  then show ?thesis by (simp add: nested_quiz_def nested_quiz_out_def)
qed

lemma entry_out_quiz:
  assumes "entry_out st (''quizData'', JDict qd) v'"
  shows "\<exists>q g g1. fix_quiz_data qd g = Inr (q, g1) \<and> v' = JDict q"
proof -
  from assms obtain g g1 where
    c: "replace_value st ''quizData'' (JDict qd) g = Inr (Some v', g1)
        \<or> replace_value st ''quizData'' (JDict qd) g = Inr (None, g1)"
    unfolding entry_out_def by auto
  show ?thesis
  proof (cases "fix_quiz_data qd g")
    case (Inl e)
    with c show ?thesis by (simp add: replace_value_quiz)
  next
    case (Inr r)
    obtain q h where r: "r = (q, h)" by (cases r)
    with c Inr have "v' = JDict q" by (simp add: replace_value_quiz)
    then show ?thesis using Inr r by blast
  qed
qed

lemma frame_course_run: "anonymize_json frame_course zero_rng = Inr frame_course_out"
proof -
  have c: "collect_identifiers frame_course (init_maps, zero_rng)
      = Inr (init_maps\<lparr>student_number_mapping := [(''123456789'', ''987654321'')],
                       student_id_mapping := [(''abc'', ''000'')]\<rparr>, zero_rng)"
    by (simp add: frame_course_def quiz_frame_in_def collect_defs randbelow_def zero_rng_tail)
       (simp add: zero_rng_def)
  have r: "replace_identifiers
        (init_maps\<lparr>student_number_mapping := [(''123456789'', ''987654321'')],
                       student_id_mapping := [(''abc'', ''000'')]\<rparr>)
        frame_course zero_rng
      = Inr (frame_course_out, zero_rng)"
    by (simp add: frame_course_def frame_course_out_def quiz_frame_in_def quiz_frame_out_def
          replace_defs zero_rng_tail init_maps_def)
       (simp add: zero_rng_def show_nat.simps)
  show ?thesis unfolding anonymize_json_def c by (simp only: r sum.case prod.case)
qed

text \<open>
  C10, as amended. For every document with a run that returns and every dict of it that
  the second pass rewrites and that has a dict under \<^verbatim>\<open>quizData\<close>, the output holds at that
  place under \<^verbatim>\<open>quizData\<close> the entries of the input dict, each with its input value
  whatever that value contains, followed by entries for exactly those of the eleven
  backfill keys that the input dict lacks.
\<close>

theorem quiz_data_frame:
  assumes "anonymize_json d g = Inr out" and "wf_json d"
    and "reached d p" and "get_path d p = Some (JDict obj)"
    and "map_of obj ''quizData'' = Some (JDict quiz_data)"
  shows "\<exists>added. get_path out (p @ [Key ''quizData'']) = Some (JDict (quiz_data @ added))
           \<and> map fst added = filter (\<lambda>k. k \<notin> set (map fst quiz_data)) quiz_fields"
proof -
  from assms(1) obtain st g1 g2 where
    r: "replace_identifiers st d g1 = Inr (out, g2)"
    by (auto simp: anonymize_json_def split: sum.splits prod.splits)
  from entry_at_path[OF r assms(2,3,4,5)] obtain v' where
    v: "get_path out (p @ [Key ''quizData'']) = Some v'"
       "entry_out st (''quizData'', JDict quiz_data) v'"
    by auto
  from entry_out_quiz[OF v(2)] obtain q h h1 where
    q: "fix_quiz_data quiz_data h = Inr (q, h1)" "v' = JDict q" by blast
  from fix_quiz_data_frame[OF q(1)] obtain added where
    added: "q = quiz_data @ added"
      "map fst added = filter (\<lambda>k. k \<notin> set (map fst quiz_data)) quiz_fields" by blast
  then show ?thesis using v(1) q(2) by blast
qed

theorem quiz_data_frame_witness:
  "anonymize_json frame_course zero_rng = Inr frame_course_out
   \<and> wf_json frame_course
   \<and> reached frame_course [Key ''assignments'', Idx 0]
   \<and> get_path frame_course [Key ''assignments'', Idx 0]
       = Some (JDict [(''quizData'', quiz_frame_in)])
   \<and> map_of [(''quizData'', quiz_frame_in)] ''quizData''
       = Some (JDict [(''title'', JStr ''Unit 1''), (''studentId'', JStr ''abc''),
                      (''email'', JStr ''123456789@gapps.yrdsb.ca'')])
   \<and> (\<exists>added. get_path frame_course_out ([Key ''assignments'', Idx 0] @ [Key ''quizData''])
                 = Some (JDict ([(''title'', JStr ''Unit 1''), (''studentId'', JStr ''abc''),
                                 (''email'', JStr ''123456789@gapps.yrdsb.ca'')] @ added))
          \<and> map fst added
               = filter (\<lambda>k. k \<notin> set (map fst [(''title'', JStr ''Unit 1''),
                                 (''studentId'', JStr ''abc''),
                                 (''email'', JStr ''123456789@gapps.yrdsb.ca'')])) quiz_fields)
   \<and> get_path frame_course_out [Key ''assignments'', Idx 0, Key ''quizData'', Key ''email'']
       = Some (JStr ''123456789@gapps.yrdsb.ca'')"
proof -
  have h2: "wf_json frame_course" by (simp add: frame_course_def quiz_frame_in_def)
  have h3: "reached frame_course [Key ''assignments'', Idx 0]"
    by (simp add: frame_course_def descends_def)
  have h4: "get_path frame_course [Key ''assignments'', Idx 0]
       = Some (JDict [(''quizData'', quiz_frame_in)])"
    by (simp add: frame_course_def)
  have h5: "map_of [(''quizData'', quiz_frame_in)] ''quizData''
       = Some (JDict [(''title'', JStr ''Unit 1''), (''studentId'', JStr ''abc''),
                      (''email'', JStr ''123456789@gapps.yrdsb.ca'')])"
    by (simp add: quiz_frame_in_def)
  have h6: "get_path frame_course_out
              [Key ''assignments'', Idx 0, Key ''quizData'', Key ''email'']
       = Some (JStr ''123456789@gapps.yrdsb.ca'')"
    by (simp add: frame_course_out_def quiz_frame_out_def)
  from quiz_data_frame[OF frame_course_run h2 h3 h4 h5] frame_course_run h2 h3 h4 h5 h6
  show ?thesis by blast
qed

text \<open>
  The claim as stated speaks of every \<^verbatim>\<open>quizData\<close> entry. The second pass replaces the
  value of a URL-bearing key as a whole when its text holds a Google address, so a quiz
  dict inside such a value is not copied to the output.
\<close>

theorem linked_quiz_dropped:
  "anonymize_json linked_quiz zero_rng = Inr linked_quiz_out
   \<and> get_path linked_quiz [Key ''alternateLink'', Key ''quizData'']
       = Some (JDict [(''title'', JStr ''docs.google.com/forms'')])
   \<and> get_path linked_quiz_out [Key ''alternateLink'']
       = Some (JStr ''https://forms.example.com/placeholder'')
   \<and> get_path linked_quiz_out [Key ''alternateLink'', Key ''quizData''] = None"
proof -
  have c: "collect_identifiers linked_quiz (init_maps, zero_rng) = Inr (init_maps, zero_rng)"
    by (simp add: linked_quiz_def collect_defs)
  have s: "py_str (JDict [(''quizData'', JDict [(''title'', JStr ''docs.google.com/forms'')])])
      = ''{'' @ [CHR 0x27] @ ''quizData'' @ [CHR 0x27] @ '': {'' @ [CHR 0x27] @ ''title''
          @ [CHR 0x27] @ '': '' @ [CHR 0x27] @ ''docs.google.com/forms'' @ [CHR 0x27] @ ''}}''"
    by (simp add: py_str_def repr_str_def repr_char_def printable_def Let_def)
  have r: "replace_identifiers init_maps linked_quiz zero_rng = Inr (linked_quiz_out, zero_rng)"
    by (simp add: linked_quiz_def linked_quiz_out_def replace_value_def replace_ids_def
          replace_rest_def replace_url_def lookup_name_def fix_submission_def s Let_def
          init_maps_def)
  have "anonymize_json linked_quiz zero_rng = Inr linked_quiz_out"
    unfolding anonymize_json_def c by (simp only: r sum.case prod.case)
  then show ?thesis by (simp add: linked_quiz_def linked_quiz_out_def)
qed

lemma quiz_frame_run:
  "anonymize_json (JDict [(''quizData'', quiz_frame_in)]) zero_rng
     = Inr (JDict [(''quizData'', quiz_frame_out)])"
proof -
  have c: "collect_identifiers (JDict [(''quizData'', quiz_frame_in)]) (init_maps, zero_rng)
      = Inr (init_maps\<lparr>student_number_mapping := [(''123456789'', ''987654321'')],
                       student_id_mapping := [(''abc'', ''000'')]\<rparr>, zero_rng)"
    by (simp add: quiz_frame_in_def collect_defs randbelow_def zero_rng_tail)
       (simp add: zero_rng_def)
  have r: "replace_identifiers
        (init_maps\<lparr>student_number_mapping := [(''123456789'', ''987654321'')],
                       student_id_mapping := [(''abc'', ''000'')]\<rparr>)
        (JDict [(''quizData'', quiz_frame_in)]) zero_rng
      = Inr (JDict [(''quizData'', quiz_frame_out)], zero_rng)"
    by (simp add: quiz_frame_in_def quiz_frame_out_def replace_defs zero_rng_tail init_maps_def)
       (simp add: zero_rng_def show_nat.simps)
  show ?thesis unfolding anonymize_json_def c by (simp only: r sum.case prod.case)
qed

subsection \<open>Values of the wrong type\<close>

text \<open>
  C3. A value of the wrong type under a key that a rule inspects makes the run fail:
  an integer under \<^verbatim>\<open>courseGroupEmail\<close> raises \<^verbatim>\<open>AttributeError\<close> in the second pass
  (\<^verbatim>\<open>value.replace\<close>), and an integer under \<^verbatim>\<open>email\<close> raises \<^verbatim>\<open>TypeError\<close> in the first
  pass (\<^verbatim>\<open>"@gapps.yrdsb.ca" in email\<close>). No document is returned in either case.
\<close>

theorem wrong_type_raises:
  "anonymize_json (JDict [(''courseGroupEmail'', JInt 5)]) g = Inl AttributeError
   \<and> anonymize_json (JDict [(''email'', JInt 5)]) g = Inl TypeError"
  by (simp add: anonymize_json_def collect_defs replace_defs)

subsection \<open>The first pass\<close>

lemma collect_rel:
  assumes R: "pass_relation R"
  shows "collect_identifiers d s = Inr s' \<Longrightarrow> R s s'"
    and "collect_values kvs s = Inr s' \<Longrightarrow> R s s'"
    and "collect_items xs s = Inr s' \<Longrightarrow> R s s'"
proof (induction d s and kvs s and xs s arbitrary: s' and s' and s'
       rule: collect_identifiers_collect_values_collect_items.induct)
  case (1 obj s)
  from "1.prems" obtain s1 where
    n: "collect_node obj s = Inr s1" and v: "collect_values obj s1 = Inr s'"
    by (auto split: sum.splits)
  have "R s1 s'" using "1.IH"[OF n v] .
  moreover have "R s s1" using R n unfolding pass_relation_def by blast
  ultimately show ?case using R unfolding pass_relation_def by blast
next
  case (9 kv kvs s)
  from "9.prems" obtain s1 where
    n: "collect_identifiers (snd kv) s = Inr s1" and v: "collect_values kvs s1 = Inr s'"
    by (auto split: sum.splits)
  have "R s s1" using "9.IH"(1)[OF n] .
  moreover have "R s1 s'" using "9.IH"(2)[OF n v] .
  ultimately show ?case using R unfolding pass_relation_def by blast
next
  case (11 x xs s)
  from "11.prems" obtain s1 where
    n: "collect_identifiers x s = Inr s1" and v: "collect_items xs s1 = Inr s'"
    by (auto split: sum.splits)
  have "R s s1" using "11.IH"(1)[OF n] .
  moreover have "R s1 s'" using "11.IH"(2)[OF n v] .
  ultimately show ?case using R unfolding pass_relation_def by blast
qed (use R in \<open>auto simp: pass_relation_def\<close>)

lemma collect_values_mem:
  assumes R: "pass_relation R"
  shows "collect_values kvs s = Inr s' \<Longrightarrow> kv \<in> set kvs
    \<Longrightarrow> \<exists>s1 s2. R s s1 \<and> collect_identifiers (snd kv) s1 = Inr s2 \<and> R s2 s'"
proof (induction kvs arbitrary: s)
  case Nil
  then show ?case by simp
next
  case (Cons a kvs)
  from Cons.prems(1) obtain sa where
    a: "collect_identifiers (snd a) s = Inr sa" and r: "collect_values kvs sa = Inr s'"
    by (auto split: sum.splits)
  show ?case
  proof (cases "kv = a")
    case True
    have "R sa s'" using collect_rel(2)[OF R r] by blast
    then show ?thesis using a True R unfolding pass_relation_def by blast
  next
    case False
    then have "kv \<in> set kvs" using Cons.prems(2) by simp
    from Cons.IH[OF r this] obtain s1 s2 where
      "R sa s1" "collect_identifiers (snd kv) s1 = Inr s2" "R s2 s'" by blast
    moreover have "R s sa" using collect_rel(1)[OF R a] by blast
    ultimately show ?thesis using R unfolding pass_relation_def by blast
  qed
qed

lemma collect_items_mem:
  assumes R: "pass_relation R"
  shows "collect_items xs s = Inr s' \<Longrightarrow> x \<in> set xs
    \<Longrightarrow> \<exists>s1 s2. R s s1 \<and> collect_identifiers x s1 = Inr s2 \<and> R s2 s'"
proof (induction xs arbitrary: s)
  case Nil
  then show ?case by simp
next
  case (Cons a xs)
  from Cons.prems(1) obtain sa where
    a: "collect_identifiers a s = Inr sa" and r: "collect_items xs sa = Inr s'"
    by (auto split: sum.splits)
  show ?case
  proof (cases "x = a")
    case True
    have "R sa s'" using collect_rel(3)[OF R r] by blast
    then show ?thesis using a True R unfolding pass_relation_def by blast
  next
    case False
    then have "x \<in> set xs" using Cons.prems(2) by simp
    from Cons.IH[OF r this] obtain s1 s2 where
      "R sa s1" "collect_identifiers x s1 = Inr s2" "R s2 s'" by blast
    moreover have "R s sa" using collect_rel(1)[OF R a] by blast
    ultimately show ?thesis using R unfolding pass_relation_def by blast
  qed
qed

lemma collect_visits:
  assumes R: "pass_relation R"
  shows "collect_identifiers d s = Inr s' \<Longrightarrow> get_path d p = Some (JDict obj)
    \<Longrightarrow> \<exists>s1 s2. R s s1 \<and> collect_node obj s1 = Inr s2 \<and> R s2 s'"
proof (induction p arbitrary: d s s')
  case Nil
  then have d: "d = JDict obj" by simp
  with Nil.prems(1) obtain s1 where
    n: "collect_node obj s = Inr s1" and v: "collect_values obj s1 = Inr s'"
    by (auto split: sum.splits)
  have "R s1 s'" using collect_rel(2)[OF R v] by blast
  then show ?case using n R unfolding pass_relation_def by blast
next
  case (Cons st p)
  show ?case
  proof (cases st)
    case (Key k)
    with Cons.prems(2) obtain kvs c where d: "d = JDict kvs" "map_of kvs k = Some c"
      "get_path c p = Some (JDict obj)"
      by (cases d) (auto split: option.splits)
    from Cons.prems(1) d(1) obtain sa where
      n: "collect_node kvs s = Inr sa" and v: "collect_values kvs sa = Inr s'"
      by (auto split: sum.splits)
    have "(k, c) \<in> set kvs" using d(2) by (rule map_of_SomeD)
    from collect_values_mem[OF R v this] obtain sb sc where
      b: "R sa sb" "collect_identifiers c sb = Inr sc" "R sc s'" by auto
    from Cons.IH[OF b(2) d(3)] obtain s1 s2 where
      i: "R sb s1" "collect_node obj s1 = Inr s2" "R s2 sc" by blast
    have "R s s1" using n b(1) i(1) R unfolding pass_relation_def by blast
    moreover have "R s2 s'" using i(3) b(3) R unfolding pass_relation_def by blast
    ultimately show ?thesis using i(2) by blast
  next
    case (Idx i)
    with Cons.prems(2) obtain xs where d: "d = JList xs" "i < length xs"
      "get_path (xs ! i) p = Some (JDict obj)"
      by (cases d) (auto split: if_splits)
    from Cons.prems(1) d(1) have v: "collect_items xs s = Inr s'" by simp
    have "xs ! i \<in> set xs" using d(2) by simp
    from collect_items_mem[OF R v this] obtain sb sc where
      b: "R s sb" "collect_identifiers (xs ! i) sb = Inr sc" "R sc s'" by blast
    from Cons.IH[OF b(2) d(3)] obtain s1 s2 where
      i: "R sb s1" "collect_node obj s1 = Inr s2" "R s2 sc" by blast
    have "R s s1" using b(1) i(1) R unfolding pass_relation_def by blast
    moreover have "R s2 s'" using i(3) b(3) R unfolding pass_relation_def by blast
    ultimately show ?thesis using i(2) by blast
  qed
qed

lemma grows_refl: "grows st st"
  by (simp add: grows_def)

lemma grows_trans: "grows a b \<Longrightarrow> grows b c \<Longrightarrow> grows a c"
  by (simp add: grows_def)

lemma tables_kept_refl: "tables_kept s s"
  by (simp add: tables_kept_def grows_refl)

lemma tables_kept_trans: "tables_kept a b \<Longrightarrow> tables_kept b c \<Longrightarrow> tables_kept a c"
  unfolding tables_kept_def using grows_trans by blast

lemma tables_kept_same:
  "student_number_mapping st' = student_number_mapping st
   \<Longrightarrow> student_id_mapping st' = student_id_mapping st \<Longrightarrow> tables_kept (st, g) (st', g')"
  by (simp add: tables_kept_def grows_def numbers_reversed_def ids_digits_def)

lemma map_student_number_kept: "tables_kept (st, g) (map_student_number sn st, g')"
proof (cases "map_of (student_number_mapping st) sn = None")
  case False
  then have "map_student_number sn st = st" by (auto simp: map_student_number_def)
  then show ?thesis by (simp add: tables_kept_same)
next
  case True
  define st' where "st' = st\<lparr>student_number_mapping :=
      AList.update sn (reverse_student_number sn) (student_number_mapping st)\<rparr>"
  have eq: "map_student_number sn st = st'" using True by (simp add: map_student_number_def st'_def)
  have m: "map_of (student_number_mapping st') k
      = (if k = sn then Some (rev sn) else map_of (student_number_mapping st) k)" for k
    by (simp add: st'_def update_conv' reverse_student_number_def)
  have i: "student_id_mapping st' = student_id_mapping st" by (simp add: st'_def)
  have "grows st st'" unfolding grows_def i using True m by auto
  moreover have "numbers_reversed st \<longrightarrow> numbers_reversed st'"
    unfolding numbers_reversed_def using m by auto
  moreover have "ids_digits st \<longrightarrow> ids_digits st'"
    unfolding ids_digits_def i by simp
  ultimately show ?thesis unfolding eq tables_kept_def by simp
qed

lemma map_student_number_recorded:
  "map_of (student_number_mapping (map_student_number sn st)) sn \<noteq> None"
  by (simp add: map_student_number_def update_conv')

lemma map_name_tables:
  "map_name name st = Inr st' \<Longrightarrow>
     student_number_mapping st' = student_number_mapping st
     \<and> student_id_mapping st' = student_id_mapping st"
  by (auto simp: map_name_def split: sum.splits if_splits prod.splits)

lemma collect_teacher_tables:
  "student_number_mapping (collect_teacher obj st) = student_number_mapping st
   \<and> student_id_mapping (collect_teacher obj st) = student_id_mapping st"
  by (simp add: collect_teacher_def)

lemma collect_student_kept:
  assumes "collect_student nk ek obj st = Inr st'"
  shows "tables_kept (st, g) (st', g')"
proof (cases "\<exists>name email sn st1. map_of obj nk = Some name \<and> map_of obj ek = Some email
          \<and> student_number_of email = Inr (Some sn) \<and> map_name name st = Inr st1")
  case True
  then obtain name email sn st1 where h: "map_of obj nk = Some name" "map_of obj ek = Some email"
    "student_number_of email = Inr (Some sn)" "map_name name st = Inr st1" by blast
  with assms have st': "st' = map_student_number sn st1" by (simp add: collect_student_def)
  have "tables_kept (st, g) (st1, g)" using map_name_tables[OF h(4)] by (simp add: tables_kept_same)
  moreover have "tables_kept (st1, g) (st', g')" unfolding st' by (rule map_student_number_kept)
  ultimately show ?thesis by (rule tables_kept_trans)
next
  case False
  with assms have "st' = st"
    by (auto simp: collect_student_def split: option.splits sum.splits)
  then show ?thesis by (simp add: tables_kept_same)
qed

lemma collect_student_recorded:
  assumes "collect_student nk ek obj st = Inr st'" and "map_of obj nk = Some name"
    and "map_of obj ek = Some email" and "student_number_of email = Inr (Some sn)"
  shows "map_of (student_number_mapping st') sn \<noteq> None"
  using assms map_student_number_recorded
  by (auto simp: collect_student_def split: sum.splits)

lemma collect_email_kept:
  assumes "collect_email obj st = Inr st'"
  shows "tables_kept (st, g) (st', g')"
  using assms map_student_number_kept tables_kept_same
  by (auto simp: collect_email_def split: option.splits sum.splits)

lemma collect_email_recorded:
  assumes "collect_email obj st = Inr st'" and "map_of obj ''email'' = Some email"
    and "student_number_of email = Inr (Some sn)"
  shows "map_of (student_number_mapping st') sn \<noteq> None"
  using assms map_student_number_recorded
  by (auto simp: collect_email_def)

lemma random_choices_result:
  "population \<noteq> [] \<Longrightarrow> random_choices population k g = (r, g')
     \<Longrightarrow> length r = k \<and> set r \<subseteq> set population"
proof (induction k arbitrary: g r g')
  case 0
  then show ?case by simp
next
  case (Suc k)
  obtain rest g2 where
    rest: "random_choices population k (\<lambda>i. g (Suc i)) = (rest, g2)" by fastforce
  with Suc.prems(2) have r: "r = population ! (g 0 mod length population) # rest"
    by (simp add: randbelow_def)
  have "population ! (g 0 mod length population) \<in> set population"
    using Suc.prems(1) by simp
  then show ?case using Suc.IH[OF Suc.prems(1) rest] r by simp
qed

lemma collect_student_id_kept:
  assumes "collect_student_id obj s = Inr s'"
  shows "tables_kept s s'"
proof (cases "\<exists>sid. map_of obj ''studentId'' = Some (JStr sid)
                \<and> map_of (student_id_mapping (fst s)) sid = None")
  case True
  then obtain sid where sid: "map_of obj ''studentId'' = Some (JStr sid)"
    "map_of (student_id_mapping (fst s)) sid = None" by blast
  obtain st g where s: "s = (st, g)" by (cases s)
  obtain fake g1 where f: "random_choices ''0123456789'' (length sid) g = (fake, g1)"
    by (cases "random_choices ''0123456789'' (length sid) g")
  have ne: "''0123456789'' \<noteq> []" by simp
  from random_choices_result[OF ne f] have fk: "length fake = length sid" "digits_only fake"
    unfolding digits_only_def list_all_iff by blast+
  define st' where "st' = st\<lparr>student_id_mapping :=
      AList.update sid fake (student_id_mapping st)\<rparr>"
  from assms sid s f have s': "s' = (st', g1)"
    by (simp add: collect_student_id_def st'_def)
  have none: "map_of (student_id_mapping st) sid = None" using sid(2) s by simp
  have m: "map_of (student_id_mapping st') k
      = (if k = sid then Some fake else map_of (student_id_mapping st) k)" for k
    by (simp add: st'_def update_conv')
  have n: "student_number_mapping st' = student_number_mapping st" by (simp add: st'_def)
  have "grows st st'" unfolding grows_def n using none m by auto
  moreover have "numbers_reversed st \<longrightarrow> numbers_reversed st'"
    unfolding numbers_reversed_def n by simp
  moreover have "ids_digits st \<longrightarrow> ids_digits st'"
    unfolding ids_digits_def using m fk by auto
  ultimately show ?thesis unfolding s s' tables_kept_def by simp
next
  case False
  obtain st g where s: "s = (st, g)" by (cases s)
  show ?thesis
  proof (cases "map_of obj ''studentId''")
    case None
    with assms have "s' = s" by (simp add: collect_student_id_def)
    then show ?thesis by (simp add: tables_kept_refl)
  next
    case (Some v)
    show ?thesis
    proof (cases v)
      case (JStr sid)
      with False Some s have "map_of (student_id_mapping st) sid \<noteq> None" by simp
      with assms Some JStr s have "s' = s" by (simp add: collect_student_id_def)
      then show ?thesis by (simp add: tables_kept_refl)
    qed (use assms Some in \<open>simp_all add: collect_student_id_def\<close>)
  qed
qed

lemma collect_student_id_recorded:
  assumes "collect_student_id obj s = Inr s'" and "map_of obj ''studentId'' = Some (JStr sid)"
  shows "map_of (student_id_mapping (fst s')) sid \<noteq> None"
  using assms
  by (auto simp: collect_student_id_def update_conv' split: prod.splits if_splits)

lemma collect_node_steps:
  assumes "collect_node obj (st, g) = Inr s'"
  obtains st1 st2 st3 where
    "collect_student ''name'' ''email'' obj (collect_teacher obj st) = Inr st1"
    "collect_student ''studentName'' ''studentEmail'' obj st1 = Inr st2"
    "collect_email obj st2 = Inr st3"
    "collect_student_id obj (st3, g) = Inr s'"
  using assms by (auto simp: collect_node_def split: sum.splits)

lemma collect_node_kept:
  assumes "collect_node obj s = Inr s'"
  shows "tables_kept s s'"
proof -
  obtain st g where s: "s = (st, g)" by (cases s)
  from assms[unfolded s] obtain st1 st2 st3 where
    h: "collect_student ''name'' ''email'' obj (collect_teacher obj st) = Inr st1"
    "collect_student ''studentName'' ''studentEmail'' obj st1 = Inr st2"
    "collect_email obj st2 = Inr st3"
    "collect_student_id obj (st3, g) = Inr s'"
    by (rule collect_node_steps)
  have a: "tables_kept (st, g) (collect_teacher obj st, g)"
    using collect_teacher_tables by (simp add: tables_kept_same)
  have b: "tables_kept (collect_teacher obj st, g) (st1, g)"
    using h(1) by (rule collect_student_kept)
  have c: "tables_kept (st1, g) (st2, g)" using h(2) by (rule collect_student_kept)
  have d: "tables_kept (st2, g) (st3, g)" using h(3) by (rule collect_email_kept)
  have e: "tables_kept (st3, g) s'" using h(4) by (rule collect_student_id_kept)
  show ?thesis unfolding s
    using tables_kept_trans[OF a tables_kept_trans[OF b tables_kept_trans[OF c tables_kept_trans[OF d e]]]] .
qed

lemma pass_tables_kept: "pass_relation tables_kept"
  unfolding pass_relation_def
  using tables_kept_refl tables_kept_trans collect_node_kept by blast

lemma init_tables: "numbers_reversed init_maps" "ids_digits init_maps"
  by (simp_all add: numbers_reversed_def ids_digits_def init_maps_def)

lemma student_number_of_str:
  "py_in_str ''@gapps.yrdsb.ca'' e \<Longrightarrow> py_isdigit (local_part e)
     \<Longrightarrow> student_number_of (JStr e) = Inr (Some (local_part e))"
  by (simp add: student_number_of_def student_domain_def)

lemma collect_node_email_recorded:
  assumes "collect_node obj s = Inr s'" and "map_of obj ''email'' = Some (JStr e)"
    and "py_in_str ''@gapps.yrdsb.ca'' e" and "py_isdigit (local_part e)"
  shows "map_of (student_number_mapping (fst s')) (local_part e) \<noteq> None"
proof -
  obtain st g where s: "s = (st, g)" by (cases s)
  from assms(1)[unfolded s] obtain st1 st2 st3 where
    h: "collect_email obj st2 = Inr st3" "collect_student_id obj (st3, g) = Inr s'"
    by (rule collect_node_steps)
  have "map_of (student_number_mapping st3) (local_part e) \<noteq> None"
    using collect_email_recorded[OF h(1) assms(2) student_number_of_str[OF assms(3,4)]] .
  moreover have "grows st3 (fst s')"
    using collect_student_id_kept[OF h(2)] by (simp add: tables_kept_def)
  ultimately show ?thesis unfolding grows_def by auto
qed

subsection \<open>Student numbers met without a name\<close>

text \<open>
  C9, as amended. For every dict of the document, wherever it stands, that has an
  \<^verbatim>\<open>email\<close> entry whose string contains \<^verbatim>\<open>@gapps.yrdsb.ca\<close> and whose text before the first
  \<^verbatim>\<open>@\<close> is all digits, with or without a \<^verbatim>\<open>name\<close> entry beside it, a first pass that
  returns leaves that student number in the Student-Number Mapping, mapped to its
  reversal.
\<close>

theorem email_number_recorded:
  assumes "collect_identifiers d (init_maps, g) = Inr (st, g')"
    and "get_path d p = Some (JDict obj)"
    and "map_of obj ''email'' = Some (JStr e)"
    and "py_in_str ''@gapps.yrdsb.ca'' e" and "py_isdigit (local_part e)"
  shows "map_of (student_number_mapping st) (local_part e)
           = Some (reverse_student_number (local_part e))"
proof -
  from collect_visits[OF pass_tables_kept assms(1,2)] obtain s1 s2 where
    v: "tables_kept (init_maps, g) s1" "collect_node obj s1 = Inr s2" "tables_kept s2 (st, g')"
    by blast
  have "tables_kept (init_maps, g) (st, g')"
    using collect_rel(1)[OF pass_tables_kept assms(1)] .
  then have rev: "numbers_reversed st" using init_tables(1) by (simp add: tables_kept_def)
  have "map_of (student_number_mapping (fst s2)) (local_part e) \<noteq> None"
    using collect_node_email_recorded[OF v(2) assms(3,4,5)] .
  moreover have "grows (fst s2) st" using v(3) by (simp add: tables_kept_def)
  ultimately have "map_of (student_number_mapping st) (local_part e) \<noteq> None"
    unfolding grows_def by auto
  then show ?thesis using rev unfolding numbers_reversed_def reverse_student_number_def by auto
qed

theorem email_number_recorded_witness:
  "collect_identifiers (JDict [(''email'', JStr ''123456789@gapps.yrdsb.ca'')]) (init_maps, zero_rng)
     = Inr (init_maps\<lparr>student_number_mapping := [(''123456789'', ''987654321'')]\<rparr>, zero_rng)
   \<and> get_path (JDict [(''email'', JStr ''123456789@gapps.yrdsb.ca'')]) []
       = Some (JDict [(''email'', JStr ''123456789@gapps.yrdsb.ca'')])
   \<and> map_of [(''email'', JStr ''123456789@gapps.yrdsb.ca'')] ''email''
       = Some (JStr ''123456789@gapps.yrdsb.ca'')
   \<and> py_in_str ''@gapps.yrdsb.ca'' ''123456789@gapps.yrdsb.ca''
   \<and> py_isdigit (local_part ''123456789@gapps.yrdsb.ca'')
   \<and> map_of (student_number_mapping
               (init_maps\<lparr>student_number_mapping := [(''123456789'', ''987654321'')]\<rparr>))
         (local_part ''123456789@gapps.yrdsb.ca'')
       = Some (reverse_student_number (local_part ''123456789@gapps.yrdsb.ca''))"
proof -
  have h1: "collect_identifiers (JDict [(''email'', JStr ''123456789@gapps.yrdsb.ca'')])
      (init_maps, zero_rng)
     = Inr (init_maps\<lparr>student_number_mapping := [(''123456789'', ''987654321'')]\<rparr>, zero_rng)"
    by (simp add: collect_defs)
  have h2: "get_path (JDict [(''email'', JStr ''123456789@gapps.yrdsb.ca'')]) []
       = Some (JDict [(''email'', JStr ''123456789@gapps.yrdsb.ca'')])" by simp
  have h3: "map_of [(''email'', JStr ''123456789@gapps.yrdsb.ca'')] ''email''
       = Some (JStr ''123456789@gapps.yrdsb.ca'')" by simp
  have h4: "py_in_str ''@gapps.yrdsb.ca'' ''123456789@gapps.yrdsb.ca''" by simp
  have h5: "py_isdigit (local_part ''123456789@gapps.yrdsb.ca'')"
    by (simp add: py_isdigit_def local_part_def digit_char_def)
  from email_number_recorded[OF h1 h2 h3 h4 h5] h1 h2 h3 h4 h5 show ?thesis by blast
qed

text \<open>
  The claim as stated fails for \<^verbatim>\<open>studentEmail\<close>: the rule for emails without a name
  reads the key \<^verbatim>\<open>email\<close> only, so a \<^verbatim>\<open>studentEmail\<close> that has no \<^verbatim>\<open>studentName\<close> beside it
  leaves the mapping as it was.
\<close>

theorem student_email_not_recorded:
  "collect_identifiers (JDict [(''studentEmail'', JStr ''123456789@gapps.yrdsb.ca'')])
      (init_maps, zero_rng) = Inr (init_maps, zero_rng)
   \<and> map_of (student_number_mapping init_maps) ''123456789'' = None
   \<and> py_in_str ''@gapps.yrdsb.ca'' ''123456789@gapps.yrdsb.ca''
   \<and> py_isdigit (local_part ''123456789@gapps.yrdsb.ca'')
   \<and> local_part ''123456789@gapps.yrdsb.ca'' = ''123456789''"
  by (simp add: collect_defs)

subsection \<open>Student IDs\<close>

lemma entry_out_student_id:
  assumes "entry_out st (''studentId'', JStr s) v'"
    and "map_of (student_id_mapping st) s = Some t"
  shows "v' = JStr t"
proof -
  have "replace_value st ''studentId'' (JStr s) g = Inr (Some (JStr t), g)" for g
    using assms(2)
    by (simp add: replace_value_def replace_ids_def lookup_student_id_def)
  then have "\<And>g. \<exists>g1. replace_value st ''studentId'' (JStr s) g = Inr (Some ((\<lambda>g. JStr t) g), g1)"
    by blast
  from entry_out_special[OF this assms(1)] show ?thesis by blast
qed

lemma collect_node_id_recorded:
  assumes "collect_node obj s = Inr s'" and "map_of obj ''studentId'' = Some (JStr sid)"
  shows "map_of (student_id_mapping (fst s')) sid \<noteq> None"
proof -
  obtain st g where s: "s = (st, g)" by (cases s)
  from assms(1)[unfolded s] obtain st1 st2 st3 where
    h: "collect_student_id obj (st3, g) = Inr s'"
    by (rule collect_node_steps)
  show ?thesis using collect_student_id_recorded[OF h assms(2)] .
qed

text \<open>
  C6, as amended. For every \<^verbatim>\<open>studentId\<close> field of the document that holds a string \<open>s\<close>,
  wherever the field stands, a run that returns has built a Student-ID Mapping with an
  entry for \<open>s\<close>; that entry \<open>t\<close> has the length of \<open>s\<close> and consists of the digits 0 to
  9, and it is what the output holds in place of \<open>s\<close> at every occurrence in a dict that
  the second pass rewrites. The entry depends on the run and on \<open>s\<close> only, so equal IDs
  get equal replacements there.
\<close>

theorem student_id_replacement:
  assumes "collect_identifiers d (init_maps, g) = Inr (st, g1)"
    and "replace_identifiers st d g1 = Inr (out, g2)"
    and "wf_json d"
    and "get_path d p = Some (JDict obj)"
    and "map_of obj ''studentId'' = Some (JStr s)"
  shows "\<exists>t. map_of (student_id_mapping st) s = Some t
           \<and> length t = length s \<and> digits_only t
           \<and> (reached d p \<longrightarrow> get_path out (p @ [Key ''studentId'']) = Some (JStr t))"
proof -
  from collect_visits[OF pass_tables_kept assms(1,4)] obtain s1 s2 where
    v: "collect_node obj s1 = Inr s2" "tables_kept s2 (st, g1)" by blast
  have "tables_kept (init_maps, g) (st, g1)"
    using collect_rel(1)[OF pass_tables_kept assms(1)] .
  then have ok: "ids_digits st" using init_tables(2) by (simp add: tables_kept_def)
  have "map_of (student_id_mapping (fst s2)) s \<noteq> None"
    using collect_node_id_recorded[OF v(1) assms(5)] .
  moreover have "grows (fst s2) st" using v(2) by (simp add: tables_kept_def)
  ultimately obtain t where t: "map_of (student_id_mapping st) s = Some t"
    unfolding grows_def by auto
  then have p: "length t = length s" "digits_only t" using ok unfolding ids_digits_def by auto
  have "get_path out (p @ [Key ''studentId'']) = Some (JStr t)" if "reached d p"
  proof -
    from entry_at_path[OF assms(2,3) that assms(4,5)] obtain v' where
      "get_path out (p @ [Key ''studentId'']) = Some v'"
      "entry_out st (''studentId'', JStr s) v'" by auto
    then show ?thesis using entry_out_student_id[OF _ t] by simp
  qed
  then show ?thesis using t p by blast
qed

lemma id_example_collect:
  "collect_identifiers id_example (init_maps, zero_rng) = Inr (id_example_maps, zero_rng)"
  by (simp add: id_example_def id_example_maps_def collect_defs randbelow_def zero_rng_tail)
     (simp add: zero_rng_def)

lemma id_example_replace:
  "replace_identifiers id_example_maps id_example zero_rng = Inr (id_example_out, zero_rng)"
  by (simp add: id_example_def id_example_maps_def id_example_out_def replace_defs init_maps_def)

theorem student_id_replacement_witness:
  "collect_identifiers id_example (init_maps, zero_rng) = Inr (id_example_maps, zero_rng)
   \<and> replace_identifiers id_example_maps id_example zero_rng = Inr (id_example_out, zero_rng)
   \<and> wf_json id_example
   \<and> get_path id_example [Key ''items'', Idx 0] = Some (JDict [(''studentId'', JStr ''abc'')])
   \<and> map_of [(''studentId'', JStr ''abc'')] ''studentId'' = Some (JStr ''abc'')
   \<and> reached id_example [Key ''items'', Idx 0]
   \<and> (\<exists>t. map_of (student_id_mapping id_example_maps) ''abc'' = Some t
          \<and> length t = length ''abc'' \<and> digits_only t
          \<and> (reached id_example [Key ''items'', Idx 0]
               \<longrightarrow> get_path id_example_out ([Key ''items'', Idx 0] @ [Key ''studentId''])
                     = Some (JStr t)))"
proof -
  have h3: "wf_json id_example" by (simp add: id_example_def)
  have h4: "get_path id_example [Key ''items'', Idx 0] = Some (JDict [(''studentId'', JStr ''abc'')])"
    by (simp add: id_example_def)
  have h5: "map_of [(''studentId'', JStr ''abc'')] ''studentId'' = Some (JStr ''abc'')" by simp
  have h6: "reached id_example [Key ''items'', Idx 0]"
    by (simp add: id_example_def descends_def)
  from student_id_replacement[OF id_example_collect id_example_replace h3 h4 h5]
    id_example_collect id_example_replace h3 h4 h5 h6
  show ?thesis by blast
qed

text \<open>
  The claim as stated speaks of every \<^verbatim>\<open>studentId\<close> field. The second pass copies a quiz
  dict without entering it, so an ID inside it is output as it is, beside the replacement
  of the same ID elsewhere.
\<close>

theorem quiz_student_id_kept:
  "anonymize_json quiz_id_example zero_rng = Inr quiz_id_example_out
   \<and> get_path quiz_id_example [Key ''studentId''] = Some (JStr ''abc'')
   \<and> get_path quiz_id_example [Key ''quizData'', Key ''studentId''] = Some (JStr ''abc'')
   \<and> get_path quiz_id_example_out [Key ''studentId''] = Some (JStr ''000'')
   \<and> get_path quiz_id_example_out [Key ''quizData'', Key ''studentId''] = Some (JStr ''abc'')
   \<and> \<not> digits_only ''abc''"
proof -
  have c: "collect_identifiers quiz_id_example (init_maps, zero_rng)
      = Inr (init_maps\<lparr>student_id_mapping := [(''abc'', ''000'')]\<rparr>, zero_rng)"
    by (simp add: quiz_id_example_def collect_defs randbelow_def zero_rng_tail)
       (simp add: zero_rng_def)
  have r: "replace_identifiers (init_maps\<lparr>student_id_mapping := [(''abc'', ''000'')]\<rparr>)
        quiz_id_example zero_rng
      = Inr (quiz_id_example_out, zero_rng)"
    by (simp add: quiz_id_example_def quiz_id_example_out_def replace_defs zero_rng_tail
          init_maps_def)
       (simp add: zero_rng_def show_nat.simps)
  have "anonymize_json quiz_id_example zero_rng = Inr quiz_id_example_out"
    unfolding anonymize_json_def c by (simp only: r sum.case prod.case)
  then show ?thesis
    by (simp add: quiz_id_example_def quiz_id_example_out_def digits_only_def)
qed
subsection \<open>Student emails\<close>

lemma digit_not_at: "digit_char c \<Longrightarrow> c \<noteq> CHR ''@''"
  by (auto simp: digit_char_def)

lemma local_part_reversed:
  assumes "py_isdigit l"
  shows "local_part (reverse_student_number l @ ''@gapps.yrdsb.ca'') = reverse_student_number l"
proof -
  have "\<forall>c\<in>set (rev l). c \<noteq> CHR ''@''"
    using assms digit_not_at by (auto simp: py_isdigit_def list_all_iff)
  then have "takeWhile (\<lambda>c. c \<noteq> CHR ''@'') (rev l @ ''@gapps.yrdsb.ca'') = rev l"
    using takeWhile_append2[of "rev l" "\<lambda>c. c \<noteq> CHR ''@''" "''@gapps.yrdsb.ca''"] by simp
  then show ?thesis by (simp add: local_part_def reverse_student_number_def)
qed

lemma teacher_not_digits: "\<not> py_isdigit (local_part ''stewart.chan@gapps.yrdsb.ca'')"
  by (simp add: py_isdigit_def local_part_def digit_char_def)

lemma replace_value_student_email:
  assumes "k = ''email'' \<or> k = ''studentEmail''"
    and "py_in_str ''@gapps.yrdsb.ca'' e" and "py_isdigit (local_part e)"
    and "numbers_reversed st"
  shows "replace_value st k (JStr e) g
           = Inr (Some (JStr (reverse_student_number (local_part e) @ ''@gapps.yrdsb.ca'')), g)"
proof -
  have ne: "e \<noteq> ''stewart.chan@gapps.yrdsb.ca''" using assms(3) teacher_not_digits by auto
  have "replace_student_email st (JStr e)
          = Inr (JStr (reverse_student_number (local_part e) @ ''@gapps.yrdsb.ca''))"
  proof (cases "map_of (student_number_mapping st) (local_part e)")
    case None
    then show ?thesis using assms(3) by (simp add: replace_student_email_def)
  next
    case (Some r)
    then have "r = rev (local_part e)" using assms(4) by (simp add: numbers_reversed_def)
    then show ?thesis using assms(3) Some
      by (simp add: replace_student_email_def reverse_student_number_def)
  qed
  then show ?thesis using assms(1,2) ne
    by (auto simp: replace_value_def py_str_def)
qed

text \<open>
  C5, as amended. For every dict that the second pass rewrites (a dict not inside the
  value of a URL-bearing key and not inside a dict stored under \<^verbatim>\<open>quizData\<close>) and every
  \<^verbatim>\<open>email\<close> or \<^verbatim>\<open>studentEmail\<close> entry of it whose string contains \<^verbatim>\<open>@gapps.yrdsb.ca\<close> and
  whose text before the first \<^verbatim>\<open>@\<close> is all digits, the output holds at that place the
  reversal of those digits followed by \<^verbatim>\<open>@gapps.yrdsb.ca\<close>; its local part is the
  reversal of the input's local part. The replacement depends on the student number
  only, so every such occurrence of one number gets the same replacement.
\<close>

theorem student_email_reversed:
  assumes "anonymize_json d g = Inr out" and "wf_json d"
    and "reached d p" and "get_path d p = Some (JDict obj)"
    and "k = ''email'' \<or> k = ''studentEmail''"
    and "map_of obj k = Some (JStr e)"
    and "py_in_str ''@gapps.yrdsb.ca'' e" and "py_isdigit (local_part e)"
  shows "\<exists>e'. get_path out (p @ [Key k]) = Some (JStr e')
           \<and> e' = reverse_student_number (local_part e) @ ''@gapps.yrdsb.ca''
           \<and> local_part e' = reverse_student_number (local_part e)"
proof -
  from assms(1) obtain st g1 g2 where
    c: "collect_identifiers d (init_maps, g) = Inr (st, g1)"
    and r: "replace_identifiers st d g1 = Inr (out, g2)"
    by (auto simp: anonymize_json_def split: sum.splits prod.splits)
  have "tables_kept (init_maps, g) (st, g1)"
    using collect_rel(1)[OF pass_tables_kept c] .
  then have ok: "numbers_reversed st" using init_tables(1) by (simp add: tables_kept_def)
  have k: "k \<noteq> ''grade''" "k \<noteq> ''gradedBy''" using assms(5) by auto
  from entry_at_path[OF r assms(2,3,4,6) k] obtain v' where
    v': "get_path out (p @ [Key k]) = Some v'" "entry_out st (k, JStr e) v'" by blast
  have "\<And>g. \<exists>g1. replace_value st k (JStr e) g
      = Inr (Some ((\<lambda>g. JStr (reverse_student_number (local_part e) @ ''@gapps.yrdsb.ca'')) g), g1)"
    using replace_value_student_email[OF assms(5,7,8) ok] by blast
  from entry_out_special[OF this v'(2)]
  have "v' = JStr (reverse_student_number (local_part e) @ ''@gapps.yrdsb.ca'')" by blast
  then show ?thesis using v'(1) local_part_reversed[OF assms(8)] by simp
qed

lemma email_example_run: "anonymize_json email_example zero_rng = Inr email_example_out"
  by (simp add: anonymize_json_def email_example_def email_example_out_def collect_defs
      replace_defs)

theorem student_email_reversed_witness:
  "anonymize_json email_example zero_rng = Inr email_example_out
   \<and> wf_json email_example
   \<and> reached email_example [Key ''submissions'', Idx 0]
   \<and> get_path email_example [Key ''submissions'', Idx 0]
       = Some (JDict [(''studentEmail'', JStr ''123456789@gapps.yrdsb.ca'')])
   \<and> (''studentEmail'' = ''email'' \<or> ''studentEmail'' = ''studentEmail'')
   \<and> map_of [(''studentEmail'', JStr ''123456789@gapps.yrdsb.ca'')] ''studentEmail''
       = Some (JStr ''123456789@gapps.yrdsb.ca'')
   \<and> py_in_str ''@gapps.yrdsb.ca'' ''123456789@gapps.yrdsb.ca''
   \<and> py_isdigit (local_part ''123456789@gapps.yrdsb.ca'')
   \<and> (\<exists>e'. get_path email_example_out ([Key ''submissions'', Idx 0] @ [Key ''studentEmail''])
             = Some (JStr e')
          \<and> e' = reverse_student_number (local_part ''123456789@gapps.yrdsb.ca'')
                  @ ''@gapps.yrdsb.ca''
          \<and> local_part e' = reverse_student_number (local_part ''123456789@gapps.yrdsb.ca''))"
proof -
  have h2: "wf_json email_example" by (simp add: email_example_def)
  have h3: "reached email_example [Key ''submissions'', Idx 0]"
    by (simp add: email_example_def descends_def)
  have h4: "get_path email_example [Key ''submissions'', Idx 0]
       = Some (JDict [(''studentEmail'', JStr ''123456789@gapps.yrdsb.ca'')])"
    by (simp add: email_example_def)
  have h5: "''studentEmail'' = ''email'' \<or> ''studentEmail'' = ''studentEmail''" by simp
  have h6: "map_of [(''studentEmail'', JStr ''123456789@gapps.yrdsb.ca'')] ''studentEmail''
       = Some (JStr ''123456789@gapps.yrdsb.ca'')" by simp
  have h7: "py_in_str ''@gapps.yrdsb.ca'' ''123456789@gapps.yrdsb.ca''" by simp
  have h8: "py_isdigit (local_part ''123456789@gapps.yrdsb.ca'')"
    by (simp add: py_isdigit_def local_part_def digit_char_def)
  from student_email_reversed[OF email_example_run h2 h3 h4 h5 h6 h7 h8]
    email_example_run h2 h3 h4 h5 h6 h7 h8
  show ?thesis by blast
qed

text \<open>
  The claim as stated, for an occurrence anywhere in the tree, fails inside a dict
  stored under \<^verbatim>\<open>quizData\<close>, which the second pass copies as it is.
\<close>

theorem quiz_email_not_reversed:
  "anonymize_json (JDict [(''quizData'', quiz_frame_in)]) zero_rng
     = Inr (JDict [(''quizData'', quiz_frame_out)])
   \<and> get_path (JDict [(''quizData'', quiz_frame_in)]) [Key ''quizData'', Key ''email'']
       = Some (JStr ''123456789@gapps.yrdsb.ca'')
   \<and> get_path (JDict [(''quizData'', quiz_frame_out)]) [Key ''quizData'', Key ''email'']
       = Some (JStr ''123456789@gapps.yrdsb.ca'')
   \<and> py_in_str ''@gapps.yrdsb.ca'' ''123456789@gapps.yrdsb.ca''
   \<and> py_isdigit (local_part ''123456789@gapps.yrdsb.ca'')
   \<and> local_part ''123456789@gapps.yrdsb.ca''
       \<noteq> reverse_student_number (local_part ''123456789@gapps.yrdsb.ca'')"
  by (simp add: quiz_frame_run)
     (simp add: quiz_frame_in_def quiz_frame_out_def py_isdigit_def local_part_def
        digit_char_def reverse_student_number_def)

subsection \<open>The repair of submissions\<close>

lemma entry_out_plain:
  assumes "entry_out st (''gradedBy'', JStr s) v'"
  shows "v' = JStr s"
proof -
  have "replace_value st ''gradedBy'' (JStr s) g = Inr (None, g)" for g
    by (simp add: replace_value_def replace_ids_def replace_rest_def)
  then show ?thesis using assms by (auto simp: entry_out_def is_container_def)
qed

lemma fix_submission_repair:
  assumes "map_of new ''studentEmail'' \<noteq> None" and "map_of new ''studentName'' \<noteq> None"
    and "map_of new ''updatedAt'' = None" and "map_of new ''submittedAt'' = None"
    and "map_of new ''attachments'' = None"
    and "map_of new ''grade'' = Some (JDict gr)"
    and "map_of gr ''gradedBy'' = Some (JStr ''teacher'')"
  shows "map_of (fix_submission new) ''updatedAt'' = Some (JStr ''2025-01-15T12:00:00.000Z'')"
    and "map_of (fix_submission new) ''attachments'' = Some (JList [])"
    and "map_of (fix_submission new) ''grade''
          = Some (JDict (AList.update ''gradedBy'' (JStr ''manual'') gr))"
proof -
  define o1 where "o1 = set_default ''updatedAt'' (JStr ''2025-01-15T12:00:00.000Z'') new"
  define o2 where "o2 = set_default ''attachments'' (JList []) o1"
  have f: "fix_submission new = fix_grade o2"
    using assms(1,2,4) by (simp add: fix_submission_def o1_def o2_def)
  have m1: "map_of o1 k = (if k = ''updatedAt'' then Some (JStr ''2025-01-15T12:00:00.000Z'')
                           else map_of new k)" for k
    using assms(3) by (simp add: o1_def set_default_def update_conv')
  have a1: "map_of o1 ''attachments'' = None" using assms(5) by (simp add: m1)
  have m2: "map_of o2 k = (if k = ''attachments'' then Some (JList []) else map_of o1 k)" for k
    using a1 by (simp add: o2_def set_default_def update_conv')
  have g2: "map_of o2 ''grade'' = Some (JDict gr)" using assms(6) by (simp add: m2 m1)
  have fg: "fix_grade o2 = AList.update ''grade''
              (JDict (AList.update ''gradedBy'' (JStr ''manual'') gr)) o2"
    using g2 assms(7) by (simp add: fix_grade_def)
  show "map_of (fix_submission new) ''updatedAt'' = Some (JStr ''2025-01-15T12:00:00.000Z'')"
    unfolding f fg by (simp add: update_conv' m2 m1)
  show "map_of (fix_submission new) ''attachments'' = Some (JList [])"
    unfolding f fg by (simp add: update_conv' m2)
  show "map_of (fix_submission new) ''grade''
          = Some (JDict (AList.update ''gradedBy'' (JStr ''manual'') gr))"
    unfolding f fg by (simp add: update_conv')
qed

lemma map_of_same_keys:
  "map fst new = map fst obj \<Longrightarrow> (map_of new k = None) = (map_of obj k = None)"
  by (metis map_of_eq_None_iff set_map)

text \<open>
  C8, as amended. For every dict that the second pass rewrites and that has both
  \<^verbatim>\<open>studentEmail\<close> and \<^verbatim>\<open>studentName\<close>, a dict under \<^verbatim>\<open>grade\<close> whose \<^verbatim>\<open>gradedBy\<close> is
  \<^verbatim>\<open>"teacher"\<close>, and none of \<^verbatim>\<open>submittedAt\<close>, \<^verbatim>\<open>updatedAt\<close> and \<^verbatim>\<open>attachments\<close>, the output
  holds at that place \<^verbatim>\<open>grade.gradedBy\<close> equal to \<^verbatim>\<open>"manual"\<close>, \<^verbatim>\<open>updatedAt\<close> equal to
  \<^verbatim>\<open>"2025-01-15T12:00:00.000Z"\<close> and \<^verbatim>\<open>attachments\<close> equal to the empty list.
\<close>

theorem submission_repair:
  assumes "anonymize_json d g = Inr out" and "wf_json d"
    and "reached d p" and "get_path d p = Some (JDict obj)"
    and "map_of obj ''studentEmail'' \<noteq> None" and "map_of obj ''studentName'' \<noteq> None"
    and "map_of obj ''grade'' = Some (JDict grade)"
    and "map_of grade ''gradedBy'' = Some (JStr ''teacher'')"
    and "map_of obj ''submittedAt'' = None" and "map_of obj ''updatedAt'' = None"
    and "map_of obj ''attachments'' = None"
  shows "get_path out (p @ [Key ''grade'', Key ''gradedBy'']) = Some (JStr ''manual'')
         \<and> get_path out (p @ [Key ''updatedAt'']) = Some (JStr ''2025-01-15T12:00:00.000Z'')
         \<and> get_path out (p @ [Key ''attachments'']) = Some (JList [])"
proof -
  from assms(1) obtain st g1 g2 where
    r: "replace_identifiers st d g1 = Inr (out, g2)"
    by (auto simp: anonymize_json_def split: sum.splits prod.splits)
  from node_at_path[OF r assms(2,3,4)] obtain n n' h1 h2 where
    n: "replace_identifiers st (JDict obj) h1 = Inr (JDict n, h2)" "regraded n n'"
       "get_path out p = Some (JDict n')" by blast
  have wfo: "wf_json (JDict obj)" using wf_get_path[OF assms(2,4)] .
  then have dist: "distinct (map fst obj)" by simp
  have wfg: "wf_json (JDict grade)" using wf_json_map_of[OF wfo assms(7)] .
  then have distg: "distinct (map fst grade)" by simp
  from replace_dict_char[OF n(1) dist] assms(7) obtain new v' where
    new: "n = fix_submission new" "map fst new = map fst obj"
      "map_of new ''grade'' = Some v'" "entry_out st (''grade'', JDict grade) v'" by blast
  have "descends ''grade'' (JDict grade)" by (simp add: descends_def)
  from entry_out_descend[OF new(4) _ this] obtain k1 k2 where
    gr: "replace_identifiers st (JDict grade) k1 = Inr (v', k2)"
    by (auto simp: is_container_def)
  from replace_dict_char[OF gr distg] assms(8) obtain newg w where
    newg: "v' = JDict (fix_submission newg)" "map_of newg ''gradedBy'' = Some w"
      "entry_out st (''gradedBy'', JStr ''teacher'') w" by blast
  have w: "w = JStr ''teacher''" using entry_out_plain[OF newg(3)] .
  have gb: "map_of (fix_submission newg) ''gradedBy'' = Some (JStr ''teacher'')"
    using fix_submission_keep[OF in_keys[OF newg(2)]] newg(2) w by simp
  have k: "map_of new ''studentEmail'' \<noteq> None" "map_of new ''studentName'' \<noteq> None"
    "map_of new ''updatedAt'' = None" "map_of new ''submittedAt'' = None"
    "map_of new ''attachments'' = None"
    using assms(5,6,9,10,11) map_of_same_keys[OF new(2)] by auto
  note rep = fix_submission_repair[OF k new(3)[unfolded newg(1)] gb, folded new(1)]
  have "map_of n' ''updatedAt'' = Some (JStr ''2025-01-15T12:00:00.000Z'')"
    using regraded_keep[OF n(2), of "''updatedAt''"] rep(1) by simp
  moreover have "map_of n' ''attachments'' = Some (JList [])"
    using regraded_keep[OF n(2), of "''attachments''"] rep(2) by simp
  moreover have "map_of n' ''grade''
      = Some (JDict (AList.update ''gradedBy'' (JStr ''manual'') (fix_submission newg)))"
    using regraded_keep[OF n(2), of "''grade''"] rep(3) by simp
  ultimately show ?thesis using n(3) by (simp add: get_path_append update_conv')
qed

lemma submission_example_run:
  "anonymize_json (JList [submission_example]) zero_rng = Inr (JList [submission_example_out])"
  by (simp add: anonymize_json_def submission_example_def submission_fields_def
      submission_example_out_def collect_defs replace_defs)

theorem submission_repair_witness:
  "anonymize_json (JList [submission_example]) zero_rng = Inr (JList [submission_example_out])
   \<and> wf_json (JList [submission_example])
   \<and> reached (JList [submission_example]) [Idx 0]
   \<and> get_path (JList [submission_example]) [Idx 0] = Some (JDict submission_fields)
   \<and> map_of submission_fields ''studentEmail'' \<noteq> None
   \<and> map_of submission_fields ''studentName'' \<noteq> None
   \<and> map_of submission_fields ''grade''
       = Some (JDict [(''score'', JInt 90), (''gradedBy'', JStr ''teacher'')])
   \<and> map_of [(''score'', JInt 90), (''gradedBy'', JStr ''teacher'')] ''gradedBy''
       = Some (JStr ''teacher'')
   \<and> map_of submission_fields ''submittedAt'' = None
   \<and> map_of submission_fields ''updatedAt'' = None
   \<and> map_of submission_fields ''attachments'' = None
   \<and> get_path (JList [submission_example_out]) ([Idx 0] @ [Key ''grade'', Key ''gradedBy''])
       = Some (JStr ''manual'')
   \<and> get_path (JList [submission_example_out]) ([Idx 0] @ [Key ''updatedAt''])
       = Some (JStr ''2025-01-15T12:00:00.000Z'')
   \<and> get_path (JList [submission_example_out]) ([Idx 0] @ [Key ''attachments''])
       = Some (JList [])"
proof -
  let ?grade = "[(''score'', JInt 90), (''gradedBy'', JStr ''teacher'')]"
  have h2: "wf_json (JList [submission_example])"
    by (simp add: submission_example_def submission_fields_def)
  have h3: "reached (JList [submission_example]) [Idx 0]" by simp
  have h4: "get_path (JList [submission_example]) [Idx 0] = Some (JDict submission_fields)"
    by (simp add: submission_example_def)
  have h5: "map_of submission_fields ''studentEmail'' \<noteq> None"
    by (simp add: submission_fields_def)
  have h6: "map_of submission_fields ''studentName'' \<noteq> None"
    by (simp add: submission_fields_def)
  have h7: "map_of submission_fields ''grade'' = Some (JDict ?grade)"
    by (simp add: submission_fields_def)
  have h8: "map_of ?grade ''gradedBy'' = Some (JStr ''teacher'')" by simp
  have h9: "map_of submission_fields ''submittedAt'' = None"
    by (simp add: submission_fields_def)
  have h10: "map_of submission_fields ''updatedAt'' = None"
    by (simp add: submission_fields_def)
  have h11: "map_of submission_fields ''attachments'' = None"
    by (simp add: submission_fields_def)
  from submission_repair[OF submission_example_run h2 h3 h4 h5 h6 h7 h8 h9 h10 h11]
    submission_example_run h2 h3 h4 h5 h6 h7 h8 h9 h10 h11
  show ?thesis by blast
qed

text \<open>
  The claim as stated does not ask that \<^verbatim>\<open>attachments\<close> be absent; where the input has
  attachments the repair keeps them (\<^verbatim>\<open>if "attachments" not in new_obj\<close>).
\<close>

theorem attachments_kept:
  "anonymize_json attached_example zero_rng = Inr attached_example_out
   \<and> get_path attached_example [Key ''studentEmail''] \<noteq> None
   \<and> get_path attached_example [Key ''studentName''] \<noteq> None
   \<and> get_path attached_example [Key ''grade'', Key ''gradedBy''] = Some (JStr ''teacher'')
   \<and> get_path attached_example [Key ''submittedAt''] = None
   \<and> get_path attached_example [Key ''updatedAt''] = None
   \<and> get_path attached_example_out [Key ''attachments''] = Some (JList [JInt 1])
   \<and> JList [JInt 1] \<noteq> JList []"
  by (simp add: anonymize_json_def attached_example_def attached_example_out_def
      collect_defs replace_defs)

subsection \<open>A run on the output of a run\<close>

lemma candidate_2_0: "candidate_name (Suc (Suc 0)) 0 = ''Charlie Clark''"
  by (simp add: candidate_name_def FIRST_NAMES_def LAST_NAMES_def)

lemma fake_name_2:
  "generate_fake_name (Suc (Suc 0)) {} = (''Charlie Clark'', {''Charlie Clark''})"
  by (simp add: generate_fake_name_def fake_name_loop.simps candidate_2_0 Let_def)

lemma init_length: "length (name_mapping init_maps) = 2"
  by (simp add: init_maps_def)

lemma rerun_first: "anonymize_json rerun_in zero_rng = Inr rerun_out"
  by (simp add: anonymize_json_def rerun_in_def rerun_out_def collect_defs replace_defs
      fake_name_2)

lemma rerun_second: "anonymize_json rerun_out zero_rng = Inr rerun_again"
  by (simp add: anonymize_json_def rerun_again_def rerun_out_def collect_defs replace_defs
      fake_name_2)

lemma entry_out_copy:
  assumes "entry_out st (k, v) v'" and "\<And>g. replace_value st k v g = Inr (None, g)"
    and "\<not> is_container v"
  shows "v' = v"
  using assms by (auto simp: entry_out_def)

text \<open>
  C1, as amended. In a run on any document, and so on the output of an earlier run,
  every dict that the second pass rewrites and that holds the teacher's placeholder
  address \<^verbatim>\<open>dev.codepet@gmail.com\<close> under \<^verbatim>\<open>email\<close> and the teacher's placeholder name
  \<^verbatim>\<open>Dev CodePet\<close> under \<^verbatim>\<open>name\<close> keeps both values, provided the first pass of that run has not
  entered the placeholder name in the Name Mapping as the name of a student.
\<close>

theorem teacher_placeholders_kept:
  assumes "collect_identifiers d (init_maps, g) = Inr (st, g1)"
    and "replace_identifiers st d g1 = Inr (out, g2)"
    and "wf_json d" and "reached d p" and "get_path d p = Some (JDict obj)"
    and "map_of obj ''email'' = Some (JStr ''dev.codepet@gmail.com'')"
    and "map_of obj ''name'' = Some (JStr ''Dev CodePet'')"
    and "map_of (name_mapping st) (HStr ''Dev CodePet'') = None"
  shows "get_path out (p @ [Key ''email'']) = Some (JStr ''dev.codepet@gmail.com'')
         \<and> get_path out (p @ [Key ''name'']) = Some (JStr ''Dev CodePet'')"
proof -
  from entry_at_path[OF assms(2,3,4,5,6)] obtain e' where
    e: "get_path out (p @ [Key ''email'']) = Some e'"
       "entry_out st (''email'', JStr ''dev.codepet@gmail.com'') e'" by auto
  have "replace_value st ''email'' (JStr ''dev.codepet@gmail.com'') h = Inr (None, h)" for h
    by (simp add: replace_value_def replace_ids_def replace_rest_def py_str_def)
  from entry_out_copy[OF e(2) this] have e': "e' = JStr ''dev.codepet@gmail.com''"
    by (simp add: is_container_def)
  from entry_at_path[OF assms(2,3,4,5,7)] obtain n' where
    n: "get_path out (p @ [Key ''name'']) = Some n'"
       "entry_out st (''name'', JStr ''Dev CodePet'') n'" by auto
  have "replace_value st ''name'' (JStr ''Dev CodePet'') h = Inr (None, h)" for h
    using assms(8)
    by (simp add: replace_value_def replace_ids_def replace_rest_def lookup_name_def)
  from entry_out_copy[OF n(2) this] have "n' = JStr ''Dev CodePet''"
    by (simp add: is_container_def)
  then show ?thesis using e e' n by simp
qed

theorem teacher_placeholders_kept_witness:
  "collect_identifiers teacher_out (init_maps, zero_rng) = Inr (init_maps, zero_rng)
   \<and> replace_identifiers init_maps teacher_out zero_rng = Inr (teacher_out, zero_rng)
   \<and> wf_json teacher_out \<and> reached teacher_out []
   \<and> get_path teacher_out []
       = Some (JDict [(''email'', JStr ''dev.codepet@gmail.com''), (''name'', JStr ''Dev CodePet'')])
   \<and> map_of [(''email'', JStr ''dev.codepet@gmail.com''), (''name'', JStr ''Dev CodePet'')] ''email''
       = Some (JStr ''dev.codepet@gmail.com'')
   \<and> map_of [(''email'', JStr ''dev.codepet@gmail.com''), (''name'', JStr ''Dev CodePet'')] ''name''
       = Some (JStr ''Dev CodePet'')
   \<and> map_of (name_mapping init_maps) (HStr ''Dev CodePet'') = None
   \<and> get_path teacher_out ([] @ [Key ''email'']) = Some (JStr ''dev.codepet@gmail.com'')
   \<and> get_path teacher_out ([] @ [Key ''name'']) = Some (JStr ''Dev CodePet'')"
proof -
  have h1: "collect_identifiers teacher_out (init_maps, zero_rng) = Inr (init_maps, zero_rng)"
    by (simp add: teacher_out_def collect_defs)
  have h2: "replace_identifiers init_maps teacher_out zero_rng = Inr (teacher_out, zero_rng)"
    by (simp add: teacher_out_def replace_defs init_maps_def)
  have h3: "wf_json teacher_out" by (simp add: teacher_out_def)
  have h4: "reached teacher_out []" by simp
  have h5: "get_path teacher_out []
       = Some (JDict [(''email'', JStr ''dev.codepet@gmail.com''), (''name'', JStr ''Dev CodePet'')])"
    by (simp add: teacher_out_def)
  have h6: "map_of [(''email'', JStr ''dev.codepet@gmail.com''), (''name'', JStr ''Dev CodePet'')]
       ''email'' = Some (JStr ''dev.codepet@gmail.com'')" by simp
  have h7: "map_of [(''email'', JStr ''dev.codepet@gmail.com''), (''name'', JStr ''Dev CodePet'')]
       ''name'' = Some (JStr ''Dev CodePet'')" by simp
  have h8: "map_of (name_mapping init_maps) (HStr ''Dev CodePet'') = None"
    by (simp add: init_maps_def)
  from teacher_placeholders_kept[OF h1 h2 h3 h4 h5 h6 h7 h8] h1 h2 h3 h4 h5 h6 h7 h8
  show ?thesis by blast
qed

text \<open>
  The claim as stated fails for an email that an earlier run has reversed: the next
  run takes it for a student number and reverses it again, which restores the real
  number.
\<close>

theorem rerun_reverses_again:
  "anonymize_json rerun_in zero_rng = Inr rerun_out
   \<and> anonymize_json rerun_out zero_rng = Inr rerun_again
   \<and> rerun_again \<noteq> rerun_out
   \<and> get_path rerun_out [Key ''email''] = Some (JStr ''987654321@gapps.yrdsb.ca'')
   \<and> get_path rerun_again [Key ''email''] = Some (JStr ''123456789@gapps.yrdsb.ca'')"
  by (simp add: rerun_first rerun_second) (simp add: rerun_again_def rerun_out_def)

subsection \<open>The Name Mapping\<close>

lemma fake_name_loop_result:
  "fake_name_loop index used attempts = (fake, used') \<Longrightarrow>
     (fake \<notin> used \<and> used' = insert fake used \<and> (\<exists>a. fake = candidate_name index a))
     \<or> (fake = fallback_name index \<and> used' = used)"
proof (induction index used attempts rule: fake_name_loop.induct)
  case (1 index used_names attempts)
  show ?case
  proof (cases "attempts < 100")
    case False
    with "1.prems" show ?thesis by (simp add: fake_name_loop.simps)
  next
    case True
    show ?thesis
    proof (cases "candidate_name index attempts \<notin> used_names")
      case True
      with \<open>attempts < 100\<close> "1.prems" show ?thesis
        by (auto simp: fake_name_loop.simps[of index used_names attempts] Let_def)
    next
      case False
      with \<open>attempts < 100\<close> "1.prems"
      have "fake_name_loop index used_names (attempts + 1) = (fake, used')"
        by (simp add: fake_name_loop.simps[of index used_names attempts] Let_def)
      with "1.IH"[OF \<open>attempts < 100\<close> refl] False show ?thesis by simp
    qed
  qed
qed

lemma first_names_not_dev:
  "list_all (\<lambda>f. 3 \<le> length f \<and> take 3 f \<noteq> ''Dev'') FIRST_NAMES"
  by (simp add: FIRST_NAMES_def)

lemma candidate_not_teacher: "candidate_name index a \<noteq> ''Dev CodePet''"
proof -
  have "index mod length FIRST_NAMES < length FIRST_NAMES"
    by (simp add: FIRST_NAMES_def)
  then have "FIRST_NAMES ! (index mod length FIRST_NAMES) \<in> set FIRST_NAMES"
    by (rule nth_mem)
  then have f: "3 \<le> length (FIRST_NAMES ! (index mod length FIRST_NAMES))"
    "take 3 (FIRST_NAMES ! (index mod length FIRST_NAMES)) \<noteq> ''Dev''"
    using first_names_not_dev by (auto simp: list_all_iff)
  have "take 3 (candidate_name index a) = take 3 (FIRST_NAMES ! (index mod length FIRST_NAMES))"
    using f(1) by (simp add: candidate_name_def Let_def)
  then have "take 3 (candidate_name index a) \<noteq> take 3 ''Dev CodePet''" using f(2) by simp
  then show ?thesis by auto
qed

lemma show_nat_last: "show_nat n \<noteq> [] \<and> last (show_nat n) = ''0123456789'' ! (n mod 10)"
  by (subst (1 2) show_nat.simps) simp

lemma fallback_last: "last (fallback_name index) \<in> set ''0123456789''"
proof -
  have "last (fallback_name index) = ''0123456789'' ! (index mod 10)"
    using show_nat_last[of index] by (simp add: fallback_name_def)
  moreover have "''0123456789'' ! (index mod 10) \<in> set ''0123456789''"
    by (rule nth_mem) simp
  ultimately show ?thesis by simp
qed

lemma teacher_not_fallback: "\<not> is_fallback ''Dev CodePet''"
proof
  assume "is_fallback ''Dev CodePet''"
  then obtain i where "''Dev CodePet'' = fallback_name i" unfolding is_fallback_def by blast
  then have "last ''Dev CodePet'' \<in> set ''0123456789''" using fallback_last[of i] by simp
  then show False by simp
qed

lemma teacher_keys_differ: "HStr ''Stewart Chan'' \<noteq> HStr ''Test Teacher''"
  by simp

lemma names_inv_init: "names_inv init_maps"
  by (auto simp: names_inv_def init_maps_def teacher_key_def split: if_splits)

lemma names_inv_same:
  "name_mapping st' = name_mapping st \<Longrightarrow> used_names st' = used_names st
     \<Longrightarrow> names_inv st \<Longrightarrow> names_inv st'"
  by (simp add: names_inv_def)

lemma names_inv_teacher: "names_inv st \<Longrightarrow> names_inv (collect_teacher obj st)"
proof -
  assume a: "names_inv st"
  then have "map_of (name_mapping st) (HStr ''Stewart Chan'') = Some ''Dev CodePet''"
    by (simp add: names_inv_def)
  then have "AList.update (HStr ''Stewart Chan'') ''Dev CodePet'' (name_mapping st)
      = name_mapping st" by (rule update_triv)
  then have "collect_teacher obj st = st" by (simp add: collect_teacher_def)
  then show ?thesis using a by simp
qed

lemma names_inv_add:
  assumes inv: "names_inv st" and new: "map_of (name_mapping st) k = None"
    and gen: "generate_fake_name (length (name_mapping st)) (used_names st) = (fake, used)"
  shows "names_inv (st\<lparr>name_mapping := AList.update k fake (name_mapping st),
                       used_names := used\<rparr>)"
proof -
  let ?m = "map_of (name_mapping st)"
  let ?st' = "st\<lparr>name_mapping := AList.update k fake (name_mapping st), used_names := used\<rparr>"
  have m': "map_of (name_mapping ?st') x = (if x = k then Some fake else ?m x)" for x
    by (simp add: update_conv')
  have u': "used_names ?st' = used" by simp
  from inv have t: "?m (HStr ''Stewart Chan'') = Some ''Dev CodePet''"
    "?m (HStr ''Test Teacher'') = Some ''Dev CodePet''"
    and d: "distinct (map fst (name_mapping st))"
    and old: "\<And>x v. ?m x = Some v \<Longrightarrow> \<not> teacher_key x
                \<Longrightarrow> (v \<in> used_names st \<and> v \<noteq> ''Dev CodePet'') \<or> is_fallback v"
    and pairs: "\<And>k1 k2 v. k1 \<noteq> k2 \<Longrightarrow> ?m k1 = Some v \<Longrightarrow> ?m k2 = Some v
                \<Longrightarrow> (teacher_key k1 \<and> teacher_key k2) \<or> is_fallback v"
    unfolding names_inv_def by blast+
  have kt: "\<not> teacher_key k" using new t by (auto simp: teacher_key_def)
  from gen have g: "(fake \<notin> used_names st \<and> used = insert fake (used_names st)
        \<and> (\<exists>a. fake = candidate_name (length (name_mapping st)) a))
      \<or> (fake = fallback_name (length (name_mapping st)) \<and> used = used_names st)"
    unfolding generate_fake_name_def by (rule fake_name_loop_result)
  have sub: "used_names st \<subseteq> used" using g by auto
  have fk: "(fake \<in> used \<and> fake \<noteq> ''Dev CodePet'' \<and> fake \<notin> used_names st) \<or> is_fallback fake"
    using g candidate_not_teacher by (auto simp: is_fallback_def)
  have c1: "distinct (map fst (name_mapping ?st'))" using d by (simp add: distinct_update)
  have c2: "map_of (name_mapping ?st') (HStr ''Stewart Chan'') = Some ''Dev CodePet''"
    using t(1) new unfolding m' by auto
  have c3: "map_of (name_mapping ?st') (HStr ''Test Teacher'') = Some ''Dev CodePet''"
    using t(2) new unfolding m' by auto
  have c4: "(v \<in> used_names ?st' \<and> v \<noteq> ''Dev CodePet'') \<or> is_fallback v"
    if "map_of (name_mapping ?st') x = Some v" "\<not> teacher_key x" for x v
  proof (cases "x = k")
    case True
    with that(1) have "v = fake" unfolding m' by simp
    then show ?thesis using fk by auto
  next
    case False
    with that(1) have "?m x = Some v" unfolding m' by simp
    from old[OF this that(2)] show ?thesis using sub by auto
  qed
  have fresh: "(teacher_key x \<and> teacher_key k) \<or> is_fallback fake"
    if "x \<noteq> k" "?m x = Some fake" for x
  proof (cases "teacher_key x")
    case True
    then have "fake = ''Dev CodePet''" using that(2) t by (auto simp: teacher_key_def)
    then show ?thesis using fk teacher_not_fallback by auto
  next
    case False
    from old[OF that(2) False] show ?thesis using fk by auto
  qed
  have c5: "(teacher_key k1 \<and> teacher_key k2) \<or> is_fallback v"
    if "k1 \<noteq> k2" "map_of (name_mapping ?st') k1 = Some v"
       "map_of (name_mapping ?st') k2 = Some v" for k1 k2 v
  proof (cases "k1 = k")
    case True
    with that have "v = fake" "k2 \<noteq> k" "?m k2 = Some fake" unfolding m' by auto
    from fresh[OF this(2,3)] show ?thesis using kt \<open>v = fake\<close> by auto
  next
    case k1: False
    show ?thesis
    proof (cases "k2 = k")
      case True
      with that k1 have "v = fake" "?m k1 = Some fake" unfolding m' by auto
      from fresh[OF k1 this(2)] show ?thesis using kt \<open>v = fake\<close> by auto
    next
      case False
      with that k1 have "?m k1 = Some v" "?m k2 = Some v" unfolding m' by auto
      from pairs[OF that(1) this] show ?thesis .
    qed
  qed
  show ?thesis unfolding names_inv_def using c1 c2 c3 c4 c5 by blast
qed

lemma names_inv_name:
  assumes "names_inv st" and "map_name name st = Inr st'"
  shows "names_inv st'"
proof (cases "py_key name")
  case (Inl e)
  with assms(2) show ?thesis by (simp add: map_name_def)
next
  case (Inr k)
  show ?thesis
  proof (cases "map_of (name_mapping st) k = None \<and> name \<noteq> JStr ''Stewart Chan''")
    case False
    with assms Inr show ?thesis by (auto simp: map_name_def)
  next
    case True
    obtain fake used where
      g: "generate_fake_name (length (name_mapping st)) (used_names st) = (fake, used)"
      by (cases "generate_fake_name (length (name_mapping st)) (used_names st)")
    with assms(2) Inr True
    have "st' = st\<lparr>name_mapping := AList.update k fake (name_mapping st), used_names := used\<rparr>"
      by (simp add: map_name_def)
    then show ?thesis using names_inv_add[OF assms(1) _ g] True by simp
  qed
qed

lemma names_inv_number: "names_inv st \<Longrightarrow> names_inv (map_student_number sn st)"
  by (rule names_inv_same[of _ st]) (simp_all add: map_student_number_def)

lemma names_inv_student_id:
  "names_inv st \<Longrightarrow> collect_student_id obj (st, g) = Inr (st', g') \<Longrightarrow> names_inv st'"
  by (rule names_inv_same[of _ st])
     (auto simp: collect_student_id_def split: option.splits json.splits if_splits prod.splits)

lemma pass_state_inv: "pass_state st \<Longrightarrow> names_inv st"
proof (induction rule: pass_state.induct)
  case start
  show ?case by (rule names_inv_init)
next
  case (teacher st obj)
  then show ?case by (simp add: names_inv_teacher)
next
  case (name st name st')
  then show ?case using names_inv_name by blast
next
  case (number st student_number)
  then show ?case by (simp add: names_inv_number)
next
  case (student_id st obj g st' g')
  then show ?case using names_inv_student_id by blast
qed

lemma names_inv_distinct:
  assumes "names_inv st"
  shows "names_distinct_but_teacher st"
proof -
  let ?m = "map_of (name_mapping st)"
  from assms have t: "?m (HStr ''Stewart Chan'') = Some ''Dev CodePet''"
    "?m (HStr ''Test Teacher'') = Some ''Dev CodePet''"
    and d: "distinct (map fst (name_mapping st))"
    and pairs: "\<And>k1 k2 v. k1 \<noteq> k2 \<Longrightarrow> ?m k1 = Some v \<Longrightarrow> ?m k2 = Some v
                \<Longrightarrow> (teacher_key k1 \<and> teacher_key k2) \<or> is_fallback v"
    unfolding names_inv_def by blast+
  have "(teacher_key k1 \<and> teacher_key k2 \<and> v = ''Dev CodePet'') \<or> is_fallback v"
    if "k1 \<noteq> k2" "?m k1 = Some v" "?m k2 = Some v" for k1 k2 v
  proof (cases "is_fallback v")
    case True
    then show ?thesis by simp
  next
    case False
    with pairs[OF that] have k: "teacher_key k1" "teacher_key k2" by auto
    then have "v = ''Dev CodePet''" using that(2) t by (auto simp: teacher_key_def)
    then show ?thesis using k by simp
  qed
  then show ?thesis unfolding names_distinct_but_teacher_def using d by blast
qed

lemma collect_student_pass:
  assumes "pass_state st" and "collect_student nk ek obj st = Inr st'"
  shows "pass_state st'"
proof (cases "\<exists>name email sn st1. map_of obj nk = Some name \<and> map_of obj ek = Some email
          \<and> student_number_of email = Inr (Some sn) \<and> map_name name st = Inr st1")
  case True
  then obtain name email sn st1 where h: "map_of obj nk = Some name" "map_of obj ek = Some email"
    "student_number_of email = Inr (Some sn)" "map_name name st = Inr st1" by blast
  with assms(2) have st': "st' = map_student_number sn st1" by (simp add: collect_student_def)
  have "pass_state st1" using assms(1) h(4) by (rule pass_state.name)
  then show ?thesis unfolding st' by (rule pass_state.number)
next
  case False
  with assms(2) have "st' = st"
    by (auto simp: collect_student_def split: option.splits sum.splits)
  then show ?thesis using assms(1) by simp
qed

lemma collect_email_pass:
  assumes "pass_state st" and "collect_email obj st = Inr st'"
  shows "pass_state st'"
  using assms pass_state.number
  by (auto simp: collect_email_def split: option.splits sum.splits)

lemma collect_node_pass:
  assumes "pass_state (fst s)" and "collect_node obj s = Inr s'"
  shows "pass_state (fst s')"
proof -
  obtain st g where s: "s = (st, g)" by (cases s)
  obtain st' g' where s': "s' = (st', g')" by (cases s')
  from assms(2)[unfolded s] obtain st1 st2 st3 where
    h: "collect_student ''name'' ''email'' obj (collect_teacher obj st) = Inr st1"
    "collect_student ''studentName'' ''studentEmail'' obj st1 = Inr st2"
    "collect_email obj st2 = Inr st3"
    "collect_student_id obj (st3, g) = Inr s'"
    by (rule collect_node_steps)
  have "pass_state (collect_teacher obj st)" using assms(1) s by (simp add: pass_state.teacher)
  then have "pass_state st1" using h(1) by (rule collect_student_pass)
  then have "pass_state st2" using h(2) by (rule collect_student_pass)
  then have "pass_state st3" using h(3) by (rule collect_email_pass)
  then have "pass_state st'" using h(4)[unfolded s'] by (rule pass_state.student_id)
  then show ?thesis by (simp add: s')
qed

lemma pass_relation_pass_state:
  "pass_relation (\<lambda>s s'. pass_state (fst s) \<longrightarrow> pass_state (fst s'))"
  unfolding pass_relation_def using collect_node_pass by blast

lemma collect_pass_state:
  assumes "pass_state st" and "collect_identifiers d (st, g) = Inr (st', g')"
  shows "pass_state st'"
  using collect_rel(1)[OF pass_relation_pass_state assms(2)] assms(1) by simp

lemma candidate_3_0: "candidate_name (Suc (Suc (Suc 0))) 0 = ''Diana Davis''"
  by (simp add: candidate_name_def FIRST_NAMES_def LAST_NAMES_def)

lemma fake_name_3:
  "generate_fake_name (Suc (Suc (Suc 0))) {''Charlie Clark''}
     = (''Diana Davis'', {''Charlie Clark'', ''Diana Davis''})"
  by (simp add: generate_fake_name_def fake_name_loop.simps candidate_3_0 Let_def insert_commute)

lemma names_example_collect:
  "collect_identifiers names_example (named_maps, zero_rng) = Inr (names_example_maps, zero_rng)"
  by (simp add: names_example_def names_example_maps_def named_maps_def collect_defs fake_name_3
        insert_commute)

text \<open>
  C4, as amended. At every point during and after the first pass the Name Mapping has
  distinct keys, so that each real name has exactly one synthetic name, and two real
  names share a synthetic name only if they are the two teacher names entered before the
  pass, \<^verbatim>\<open>Stewart Chan\<close> and \<^verbatim>\<open>Test Teacher\<close>, which both map to \<^verbatim>\<open>Dev CodePet\<close>, or if the
  shared name is one produced by the numeric-suffix fallback. This holds in every state
  of the pass and in the state that the pass returns from there on any document.
\<close>

theorem synthetic_names_distinct:
  assumes "pass_state st"
  shows "names_distinct_but_teacher st
         \<and> (\<forall>d g st' g'. collect_identifiers d (st, g) = Inr (st', g')
               \<longrightarrow> names_distinct_but_teacher st')"
  using assms collect_pass_state pass_state_inv names_inv_distinct by blast

theorem synthetic_names_distinct_witness:
  "pass_state named_maps
   \<and> names_distinct_but_teacher named_maps
   \<and> collect_identifiers names_example (named_maps, zero_rng) = Inr (names_example_maps, zero_rng)
   \<and> names_distinct_but_teacher names_example_maps"
proof -
  have "map_name (JStr ''Jordan Lee'') init_maps = Inr named_maps"
    by (simp add: map_name_def py_key_def init_maps_def named_maps_def fake_name_2)
  then have h: "pass_state named_maps" using pass_state.start pass_state.name by blast
  from synthetic_names_distinct[OF h] h names_example_collect show ?thesis by blast
qed

text \<open>
  The claim as stated fails before the pass has started: the two teacher names share
  \<^verbatim>\<open>Dev CodePet\<close>, which is not a fallback name.
\<close>

theorem teacher_names_share:
  "\<not> names_distinct init_maps
   \<and> map_of (name_mapping init_maps) (HStr ''Stewart Chan'') = Some ''Dev CodePet''
   \<and> map_of (name_mapping init_maps) (HStr ''Test Teacher'') = Some ''Dev CodePet''
   \<and> HStr ''Stewart Chan'' \<noteq> HStr ''Test Teacher''"
proof -
  have a: "map_of (name_mapping init_maps) (HStr ''Stewart Chan'') = Some ''Dev CodePet''"
    and b: "map_of (name_mapping init_maps) (HStr ''Test Teacher'') = Some ''Dev CodePet''"
    by (simp_all add: init_maps_def)
  have "\<not> names_distinct init_maps"
  proof
    assume "names_distinct init_maps"
    then have "\<And>k1 k2 v. k1 \<noteq> k2 \<Longrightarrow> map_of (name_mapping init_maps) k1 = Some v
        \<Longrightarrow> map_of (name_mapping init_maps) k2 = Some v \<Longrightarrow> is_fallback v"
      unfolding names_distinct_def by blast
    from this[OF teacher_keys_differ a b] show False using teacher_not_fallback by simp
  qed
  then show ?thesis using a b teacher_keys_differ by blast
qed

subsection \<open>The shape of the output\<close>

lemma congruent_entries_all:
  "congruent_entries qr obj out = (\<forall>kv\<in>set out. value_congruent qr obj kv)"
  by (induction out) (simp_all add: value_congruent_def)

lemma congruent_scalar: "\<not> is_container v' \<Longrightarrow> congruent qr uq v v'"
  by (cases v') (simp_all add: is_container_def)

lemma value_congruent_present:
  "map_of obj (fst kv) = Some v \<Longrightarrow>
     value_congruent qr obj kv = congruent qr (fst kv = ''quizData'') v (snd kv)"
  by (simp add: value_congruent_def counterpart_def)

lemma value_congruent_scalar: "\<not> is_container (snd kv) \<Longrightarrow> value_congruent qr obj kv"
  by (simp add: value_congruent_def congruent_scalar split: option.splits)

lemma congruent_items_nth:
  "congruent_items qr xs ys =
     (length xs = length ys \<and> (\<forall>i<length ys. congruent qr False (xs ! i) (ys ! i)))"
proof (induction ys arbitrary: xs)
  case Nil
  then show ?case by simp
next
  case (Cons y ys)
  show ?case
  proof (cases xs)
    case Nil
    then show ?thesis by simp
  next
    case (Cons x xs')
    then show ?thesis using Cons.IH[of xs'] by (auto simp: nth_Cons split: nat.splits)
  qed
qed

lemma congruent_refl: "wf_json v \<Longrightarrow> congruent qr uq v v"
proof (induction v arbitrary: uq)
  case (JList xs)
  then show ?case by (simp add: congruent_items_nth list_all_length)
next
  case (JDict kvs)
  have "congruent qr (fst kv = ''quizData'') (snd kv) (snd kv)" if "kv \<in> set kvs" for kv
  proof -
    have "wf_json (snd kv)" using JDict.prems that by (simp add: list_all_iff)
    then show ?thesis using JDict.IH[OF that, of "snd kv"] by (cases kv) auto
  qed
  moreover have "map_of kvs (fst kv) = Some (snd kv)" if "kv \<in> set kvs" for kv
    using JDict.prems that by (cases kv) simp
  ultimately have "value_congruent qr kvs kv" if "kv \<in> set kvs" for kv
    using that value_congruent_present[of kvs kv "snd kv" qr] by simp
  then show ?case
    by (simp add: congruent_entries_all keys_congruent_def)
qed simp_all

lemma congruent_flag:
  "(case v of JDict obj \<Rightarrow> False | _ \<Rightarrow> True) \<Longrightarrow> congruent qr uq v v' = congruent qr uq' v v'"
  by (cases v'; cases v) simp_all

lemma replace_url_result: "(\<exists>s. replace_url v = JStr s) \<or> replace_url v = v"
  by (simp add: replace_url_def Let_def)

lemma replace_student_email_result:
  "replace_student_email st v = Inr v' \<Longrightarrow> \<exists>s. v' = JStr s"
  by (cases v) (auto simp: replace_student_email_def Let_def split: option.splits if_splits)

lemma replace_rest_some:
  assumes "replace_rest k v g = Inr (Some v', g1)"
  shows "(\<exists>s. v' = JStr s) \<or> (v' = v \<and> k \<noteq> ''quizData'')
         \<or> (k = ''quizData'' \<and> (\<exists>qd added. v = JDict qd \<and> v' = JDict (qd @ added)
               \<and> map fst added = filter (\<lambda>k. k \<notin> set (map fst qd)) quiz_fields
               \<and> (\<forall>kv\<in>set added. \<not> is_container (snd kv))))"
proof (cases "k \<in> set [''alternateLink'', ''formUrl'', ''responseUrl'', ''thumbnailUrl'', ''photoUrl'']")
  case True
  with assms have "v' = replace_url v" by (simp add: replace_rest_def)
  moreover have "k \<noteq> ''quizData''" using True by auto
  ultimately show ?thesis using replace_url_result[of v] by auto
next
  case url: False
  show ?thesis
  proof (cases "k = ''quizData'' \<and> (case v of JDict d \<Rightarrow> True | _ \<Rightarrow> False)")
    case True
    then obtain qd where v: "v = JDict qd" by (cases v) auto
    with assms url True obtain q where "fix_quiz_data qd g = Inr (q, g1)" "v' = JDict q"
      by (auto simp: replace_rest_def split: sum.splits prod.splits)
    with fix_quiz_data_frame[OF this(1)] v True show ?thesis by blast
  next
    case False
    with assms url have "\<exists>s. v' = JStr s"
      by (cases v) (auto simp: replace_rest_def split: if_splits)
    then show ?thesis by blast
  qed
qed

lemma replace_ids_some:
  assumes "replace_ids st k v g = Inr (Some v', g1)"
  shows "(\<exists>s. v' = JStr s) \<or> (v' = v \<and> k \<noteq> ''quizData'')
         \<or> (k = ''quizData'' \<and> (\<exists>qd added. v = JDict qd \<and> v' = JDict (qd @ added)
               \<and> map fst added = filter (\<lambda>k. k \<notin> set (map fst qd)) quiz_fields
               \<and> (\<forall>kv\<in>set added. \<not> is_container (snd kv))))"
proof (cases "k = ''studentId''")
  case False
  with assms have "replace_rest k v g = Inr (Some v', g1)" by (simp add: replace_ids_def)
  then show ?thesis by (rule replace_rest_some)
next
  case True
  show ?thesis
  proof (cases "lookup_student_id st v")
    case (Inl e)
    with assms True show ?thesis by (simp add: replace_ids_def)
  next
    case (Inr r)
    show ?thesis
    proof (cases r)
      case None
      with assms True Inr have "replace_rest k v g = Inr (Some v', g1)"
        by (simp add: replace_ids_def)
      then show ?thesis by (rule replace_rest_some)
    next
      case (Some f)
      with assms True Inr show ?thesis by (auto simp: replace_ids_def)
    qed
  qed
qed

lemma replace_value_some:
  assumes "replace_value st k v g = Inr (Some v', g1)"
  shows "(\<exists>s. v' = JStr s) \<or> (v' = v \<and> k \<noteq> ''quizData'')
         \<or> (k = ''quizData'' \<and> (\<exists>qd added. v = JDict qd \<and> v' = JDict (qd @ added)
               \<and> map fst added = filter (\<lambda>k. k \<notin> set (map fst qd)) quiz_fields
               \<and> (\<forall>kv\<in>set added. \<not> is_container (snd kv))))"
proof (cases "k \<in> set [''email'', ''teacherEmail''] \<and> v = JStr ''stewart.chan@gapps.yrdsb.ca''")
  case True
  with assms have "v' = JStr ''dev.codepet@gmail.com''"
    by (auto simp: replace_value_def)
  then show ?thesis by blast
next
  case r1: False
  show ?thesis
  proof (cases "k \<in> set [''email'', ''studentEmail'']
                \<and> py_in_str ''@gapps.yrdsb.ca'' (py_str v)")
    case True
    have "replace_value st k v g =
        (case replace_student_email st v of Inl e \<Rightarrow> Inl e | Inr v \<Rightarrow> Inr (Some v, g))"
      by (simp only: replace_value_def r1 True if_True if_False simp_thms)
    with assms obtain w where "replace_student_email st v = Inr w" "v' = w"
      by (auto split: sum.splits)
    then show ?thesis using replace_student_email_result by blast
  next
    case r2: False
    show ?thesis
    proof (cases "k \<in> set [''name'', ''displayName'', ''studentName'']")
      case False
      have "replace_value st k v g = replace_ids st k v g"
        by (simp only: replace_value_def r1 r2 False if_False simp_thms)
      with assms have "replace_ids st k v g = Inr (Some v', g1)" by simp
      then show ?thesis by (rule replace_ids_some)
    next
      case True
      have e: "replace_value st k v g =
          (case lookup_name st v of
             Some fake_name \<Rightarrow> Inr (Some (JStr fake_name), g)
           | None \<Rightarrow> replace_ids st k v g)"
        by (simp only: replace_value_def r1 r2 True if_True if_False simp_thms)
      show ?thesis
      proof (cases "lookup_name st v")
        case None
        with assms e have "replace_ids st k v g = Inr (Some v', g1)" by simp
        then show ?thesis by (rule replace_ids_some)
      next
        case (Some f)
        with assms e show ?thesis by auto
      qed
    qed
  qed
qed

lemma replace_value_none_quiz:
  "replace_value st ''quizData'' v g = Inr (None, g1) \<Longrightarrow> (case v of JDict obj \<Rightarrow> False | _ \<Rightarrow> True)"
  by (cases v) (auto simp: replace_value_quiz split: sum.splits prod.splits)

lemma set_default_keys_eq:
  "set (map fst (set_default k v d)) = insert k (set (map fst d))"
  by (auto simp: set_default_def dom_update map_of_eq_None_iff)

lemma fix_grade_keys: "set (map fst (fix_grade d)) = set (map fst d)"
proof (cases "\<exists>gr. map_of d ''grade'' = Some (JDict gr)
                \<and> map_of gr ''gradedBy'' = Some (JStr ''teacher'')")
  case True
  then obtain gr where g: "map_of d ''grade'' = Some (JDict gr)"
    "map_of gr ''gradedBy'' = Some (JStr ''teacher'')" by blast
  then have "fix_grade d = AList.update ''grade''
      (JDict (AList.update ''gradedBy'' (JStr ''manual'') gr)) d"
    by (simp add: fix_grade_def)
  moreover have "''grade'' \<in> set (map fst d)" using g(1) by (rule in_keys)
  ultimately show ?thesis using dom_update[of "''grade''" _ d] by auto
next
  case False
  then have "fix_grade d = d"
    by (auto simp: fix_grade_def split: option.splits json.splits)
  then show ?thesis by simp
qed

lemma fix_submission_keys:
  "set (map fst (fix_submission new))
     = set (map fst new) \<union> (if submission_shaped new then {''updatedAt'', ''attachments''} else {})"
proof (cases "submission_shaped new")
  case False
  then show ?thesis by (auto simp: fix_submission_def submission_shaped_def)
next
  case True
  define o1 where "o1 = set_default ''updatedAt''
     (case map_of new ''submittedAt'' of Some v \<Rightarrow> v | None \<Rightarrow> JStr ''2025-01-15T12:00:00.000Z'') new"
  define o2 where "o2 = set_default ''attachments'' (JList []) o1"
  have f: "fix_submission new = fix_grade o2"
    using True by (simp add: fix_submission_def submission_shaped_def o1_def o2_def)
  have "set (map fst o2) = insert ''attachments'' (insert ''updatedAt'' (set (map fst new)))"
    unfolding o2_def o1_def set_default_keys_eq ..
  then show ?thesis unfolding f fix_grade_keys using True by auto
qed

lemma set_default_distinct: "distinct (map fst d) \<Longrightarrow> distinct (map fst (set_default k v d))"
  by (simp add: set_default_def distinct_update)

lemma fix_grade_distinct: "distinct (map fst d) \<Longrightarrow> distinct (map fst (fix_grade d))"
  by (auto simp: fix_grade_def distinct_update split: option.splits json.splits)

lemma fix_submission_distinct:
  "distinct (map fst new) \<Longrightarrow> distinct (map fst (fix_submission new))"
  by (simp add: fix_submission_def Let_def fix_grade_distinct set_default_distinct)

lemma map_of_set_default:
  "map_of (set_default k v d) k' = (if k' = k \<and> map_of d k = None then Some v else map_of d k')"
  by (simp add: set_default_def update_conv')

lemma fix_submission_added:
  assumes "k \<notin> set (map fst new)" and "map_of (fix_submission new) k = Some x"
  shows "(k = ''updatedAt''
          \<and> x = (case map_of new ''submittedAt'' of
                   Some v \<Rightarrow> v | None \<Rightarrow> JStr ''2025-01-15T12:00:00.000Z''))
         \<or> (k = ''attachments'' \<and> x = JList [])"
proof (cases "submission_shaped new")
  case False
  then have "fix_submission new = new"
    by (auto simp: fix_submission_def submission_shaped_def)
  with assms(2) have "k \<in> set (map fst new)" using in_keys by simp
  with assms(1) show ?thesis by simp
next
  case True
  define o1 where "o1 = set_default ''updatedAt''
     (case map_of new ''submittedAt'' of Some v \<Rightarrow> v | None \<Rightarrow> JStr ''2025-01-15T12:00:00.000Z'') new"
  define o2 where "o2 = set_default ''attachments'' (JList []) o1"
  have f: "fix_submission new = fix_grade o2"
    using True by (simp add: fix_submission_def submission_shaped_def o1_def o2_def)
  have n: "map_of new k = None" using assms(1) by (simp add: map_of_eq_None_iff)
  show ?thesis
  proof (cases "k = ''grade''")
    case g: True
    have "map_of o2 ''grade'' = None"
      using n g by (simp add: o2_def o1_def map_of_set_default)
    then have "fix_grade o2 = o2" by (simp add: fix_grade_def)
    then have "map_of (fix_submission new) k = None"
      using f g \<open>map_of o2 ''grade'' = None\<close> by simp
    with assms(2) show ?thesis by simp
  next
    case False
    then have "map_of o2 k = Some x" using assms(2) f by (simp add: fix_grade_keep)
    then show ?thesis
      using n by (auto simp: o2_def o1_def map_of_set_default split: if_splits)
  qed
qed

lemma set_update_subset: "set (AList.update k x al) \<subseteq> insert (k, x) (set al)"
  by (induction al) auto

lemma congruent_quiz:
  assumes "wf_json (JDict qd)"
    and "map fst added = filter (\<lambda>k. k \<notin> set (map fst qd)) quiz_fields"
    and "\<forall>kv\<in>set added. \<not> is_container (snd kv)"
  shows "congruent True True (JDict qd) (JDict (qd @ added))"
proof -
  have d: "distinct (map fst qd)" using assms(1) by simp
  have sub: "set (map fst added) \<subseteq> set quiz_fields" unfolding assms(2) by auto
  have new: "set (map fst added) \<inter> set (map fst qd) = {}" unfolding assms(2) by auto
  have k: "keys_congruent (allowed_extra True True qd) qd (qd @ added)"
    using sub by (auto simp: keys_congruent_def allowed_extra_def)
  have "value_congruent True qd kv" if "kv \<in> set (qd @ added)" for kv
  proof (cases "kv \<in> set qd")
    case True
    then have "map_of qd (fst kv) = Some (snd kv)"
      using d map_of_is_SomeI[of qd "fst kv" "snd kv"] by simp
    moreover have "wf_json (snd kv)" using assms(1) True by (simp add: list_all_iff)
    ultimately show ?thesis by (simp add: value_congruent_present congruent_refl)
  next
    case False
    with that have "kv \<in> set added" by simp
    then have "\<not> is_container (snd kv)" using assms(3) by blast
    then show ?thesis by (rule value_congruent_scalar)
  qed
  then have "congruent_entries True qd (qd @ added)" unfolding congruent_entries_all by blast
  then show ?thesis using k by simp
qed

lemma congruent_regrade:
  assumes "congruent qr uq v (JDict gr)" and "map_of gr ''gradedBy'' = Some (JStr t)"
  shows "congruent qr uq v (JDict (AList.update ''gradedBy'' (JStr m) gr))"
proof -
  from assms(1) obtain obj where v: "v = JDict obj" by (cases v) auto
  let ?gr' = "AList.update ''gradedBy'' (JStr m) gr"
  have "''gradedBy'' \<in> set (map fst gr)" using assms(2) by (rule in_keys)
  then have keys: "set (map fst ?gr') = set (map fst gr)"
    using dom_update[of "''gradedBy''" "JStr m" gr] by auto
  have k: "keys_congruent (allowed_extra qr uq obj) obj ?gr'"
    using assms(1) v keys by (simp add: keys_congruent_def)
  have e: "congruent_entries qr obj gr" using assms(1) v by simp
  have "value_congruent qr obj kv" if "kv \<in> set ?gr'" for kv
  proof (cases "kv = (''gradedBy'', JStr m)")
    case True
    then have "\<not> is_container (snd kv)" by (simp add: is_container_def)
    then show ?thesis by (rule value_congruent_scalar)
  next
    case False
    with that set_update_subset[of "''gradedBy''" "JStr m" gr] have "kv \<in> set gr" by auto
    then show ?thesis using e unfolding congruent_entries_all by blast
  qed
  then have "congruent_entries qr obj ?gr'" unfolding congruent_entries_all by blast
  then show ?thesis using k v by simp
qed

lemma entry_congruent:
  assumes wf: "wf_json v" and out: "entry_out st (k, v) v'"
    and ih: "\<And>g v' g'. replace_identifiers st v g = Inr (v', g') \<Longrightarrow> congruent True False v v'"
  shows "congruent True (k = ''quizData'') v v'"
proof -
  from out obtain g g1 where
    c: "replace_value st k v g = Inr (Some v', g1)
        \<or> (replace_value st k v g = Inr (None, g1)
            \<and> (if is_container v then (\<exists>g2. replace_identifiers st v g1 = Inr (v', g2))
                else v' = v))"
    unfolding entry_out_def fst_conv snd_conv by blast
  then show ?thesis
  proof
    assume "replace_value st k v g = Inr (Some v', g1)"
    from replace_value_some[OF this]
    consider s where "v' = JStr s" | "v' = v" "k \<noteq> ''quizData''"
      | qd added where "k = ''quizData''" "v = JDict qd" "v' = JDict (qd @ added)"
          "map fst added = filter (\<lambda>k. k \<notin> set (map fst qd)) quiz_fields"
          "\<forall>kv\<in>set added. \<not> is_container (snd kv)"
      by blast
    then show ?thesis
    proof cases
      case 1
      then show ?thesis by simp
    next
      case 2
      then show ?thesis using congruent_refl[OF wf] by simp
    next
      case 3
      then show ?thesis using congruent_quiz[of qd added] wf by simp
    qed
  next
    assume n: "replace_value st k v g = Inr (None, g1)
            \<and> (if is_container v then (\<exists>g2. replace_identifiers st v g1 = Inr (v', g2))
                else v' = v)"
    show ?thesis
    proof (cases "is_container v")
      case False
      with n have "v' = v" by simp
      then show ?thesis using congruent_refl[OF wf] by simp
    next
      case True
      with n obtain g2 where "replace_identifiers st v g1 = Inr (v', g2)" by auto
      then have c: "congruent True False v v'" by (rule ih)
      show ?thesis
      proof (cases "k = ''quizData''")
        case False
        then show ?thesis using c by simp
      next
        case True
        with n have "case v of JDict obj \<Rightarrow> False | _ \<Rightarrow> True"
          using replace_value_none_quiz by blast
        from congruent_flag[OF this, of True True v' False] show ?thesis using c True by simp
      qed
    qed
  qed
qed

lemma replace_congruent:
  "wf_json v \<Longrightarrow> replace_identifiers st v g = Inr (v', g') \<Longrightarrow> congruent True False v v'"
proof (induction v arbitrary: g v' g')
  case (JList xs)
  from JList.prems(2) obtain ys where ys: "v' = JList ys" "replace_items st xs g = Inr (ys, g')"
    by (auto split: sum.splits prod.splits)
  from replace_items_char[OF ys(2)] have len: "length ys = length xs"
    and each: "\<And>i. i < length xs \<Longrightarrow> \<exists>g1 g2. replace_identifiers st (xs ! i) g1 = Inr (ys ! i, g2)"
    by blast+
  have "congruent True False (xs ! i) (ys ! i)" if "i < length ys" for i
  proof -
    have i: "i < length xs" using that len by simp
    then have "xs ! i \<in> set xs" "wf_json (xs ! i)"
      using JList.prems(1) by (simp_all add: list_all_length)
    with each[OF i] JList.IH show ?thesis by blast
  qed
  then show ?case using ys(1) len by (simp add: congruent_items_nth)
next
  case (JDict obj)
  have d: "distinct (map fst obj)" using JDict.prems(1) by simp
  from replace_dict_char[OF JDict.prems(2) d] obtain new where
    new: "v' = JDict (fix_submission new)" "map fst new = map fst obj"
      "\<And>k v. map_of obj k = Some v \<Longrightarrow> \<exists>w. map_of new k = Some w \<and> entry_out st (k, v) w"
    by blast
  have shaped: "submission_shaped new = submission_shaped obj"
    using map_of_same_keys[OF new(2)] by (simp add: submission_shaped_def)
  have keys: "keys_congruent (allowed_extra True False obj) obj (fix_submission new)"
    unfolding keys_congruent_def fix_submission_keys shaped new(2) allowed_extra_def by auto
  have dn: "distinct (map fst (fix_submission new))"
    using d new(2) by (simp add: fix_submission_distinct)
  have ec: "congruent True (k = ''quizData'') v w"
    if "map_of obj k = Some v" and "entry_out st (k, v) w" for k v w
  proof -
    have mem: "(k, v) \<in> set obj" using that(1) by (rule map_of_SomeD)
    have wfv: "wf_json v" using JDict.prems(1) mem by (auto simp: list_all_iff)
    have ih: "\<And>g v' g'. replace_identifiers st v g = Inr (v', g') \<Longrightarrow> congruent True False v v'"
      using JDict.IH[OF mem, of v] wfv by simp
    show ?thesis using entry_congruent[OF wfv that(2) ih] .
  qed
  have "value_congruent True obj kv" if kv: "kv \<in> set (fix_submission new)" for kv
  proof (cases "map_of obj (fst kv)")
    case None
    obtain k x where kx: "kv = (k, x)" by (cases kv)
    have x: "map_of (fix_submission new) k = Some x" using kv kx dn by simp
    have "k \<notin> set (map fst new)" using None kx new(2) by (simp add: map_of_eq_None_iff)
    from fix_submission_added[OF this x]
    consider "k = ''attachments''" "x = JList []"
      | "k = ''updatedAt''"
        "x = (case map_of new ''submittedAt'' of
                Some v \<Rightarrow> v | None \<Rightarrow> JStr ''2025-01-15T12:00:00.000Z'')"
      by blast
    then show ?thesis
    proof cases
      case 1
      then show ?thesis using None kx by (simp add: value_congruent_def counterpart_def)
    next
      case 2
      show ?thesis
      proof (cases "map_of obj ''submittedAt''")
        case n: None
        then have "map_of new ''submittedAt'' = None"
          using map_of_same_keys[OF new(2), of "''submittedAt''"] by simp
        with 2 have "\<not> is_container (snd kv)" using kx by (simp add: is_container_def)
        then show ?thesis by (rule value_congruent_scalar)
      next
        case (Some v)
        from new(3)[OF Some] obtain w where
          w: "map_of new ''submittedAt'' = Some w" "entry_out st (''submittedAt'', v) w" by blast
        have "congruent True (''submittedAt'' = ''quizData'') v w" using ec[OF Some w(2)] .
        then have "congruent True False v x" using 2 w(1) by simp
        then show ?thesis
          using None kx 2(1) Some by (simp add: value_congruent_def counterpart_def)
      qed
    qed
  next
    case (Some v)
    obtain k x where kx: "kv = (k, x)" by (cases kv)
    from new(3)[of k v] Some kx obtain w where
      w: "map_of new k = Some w" "entry_out st (k, v) w" by auto
    have cw: "congruent True (k = ''quizData'') v w" using ec[of k v w] Some kx w(2) by simp
    have x: "map_of (fix_submission new) k = Some x" using kv kx dn by simp
    have "congruent True (k = ''quizData'') v x"
    proof (cases "k = ''grade''")
      case False
      have "map_of (fix_submission new) k = Some w"
        using fix_submission_keep[OF in_keys[OF w(1)] False] w(1) by simp
      with x cw show ?thesis by simp
    next
      case True
      from fix_submission_grade[OF w(1)[unfolded True]] x True
      consider "x = w"
        | gr where "w = JDict gr" "map_of gr ''gradedBy'' = Some (JStr ''teacher'')"
            "x = JDict (AList.update ''gradedBy'' (JStr ''manual'') gr)"
        by auto
      then show ?thesis
      proof cases
        case 1
        then show ?thesis using cw by simp
      next
        case 2
        then show ?thesis using congruent_regrade[of True _ v gr] cw by simp
      qed
    qed
    then show ?thesis using Some kx by (simp add: value_congruent_present)
  qed
  then have "congruent_entries True obj (fix_submission new)"
    unfolding congruent_entries_all by blast
  then show ?case using keys new(1) by simp
qed (auto split: sum.splits)

lemma shape_example_run: "anonymize_json shape_example zero_rng = Inr shape_example_out"
proof -
  have c: "collect_identifiers shape_example (init_maps, zero_rng)
      = Inr (init_maps\<lparr>name_mapping :=
                         [(HStr ''Stewart Chan'', ''Dev CodePet''),
                          (HStr ''Test Teacher'', ''Dev CodePet''),
                          (HStr ''Jordan Lee'', ''Charlie Clark'')],
                       student_number_mapping := [(''123456789'', ''987654321'')],
                       used_names := {''Charlie Clark''}\<rparr>, zero_rng)"
    by (simp add: shape_example_def collect_defs fake_name_2)
  have r: "replace_identifiers
        (init_maps\<lparr>name_mapping :=
                         [(HStr ''Stewart Chan'', ''Dev CodePet''),
                          (HStr ''Test Teacher'', ''Dev CodePet''),
                          (HStr ''Jordan Lee'', ''Charlie Clark'')],
                       student_number_mapping := [(''123456789'', ''987654321'')],
                       used_names := {''Charlie Clark''}\<rparr>)
        shape_example zero_rng
      = Inr (shape_example_out, zero_rng)"
    by (simp add: shape_example_def shape_example_out_def quiz_scenario_out_def replace_defs
          zero_rng_tail init_maps_def)
       (simp add: zero_rng_def show_nat.simps)
  show ?thesis unfolding anonymize_json_def c by (simp only: r sum.case prod.case)
qed

text \<open>
  C2, as amended. For every document with a run that returns, every dict of the output
  corresponds to a dict of the input: the dict at the same place or, under an \<^verbatim>\<open>updatedAt\<close>
  key that the input dict lacks, the dict under \<^verbatim>\<open>submittedAt\<close> of that input dict. It has
  the keys of the dict it corresponds to, plus at most \<^verbatim>\<open>updatedAt\<close> and \<^verbatim>\<open>attachments\<close>
  where that dict has both \<^verbatim>\<open>studentEmail\<close> and \<^verbatim>\<open>studentName\<close>, or plus at most the eleven
  backfill keys where the dict is the value of a \<^verbatim>\<open>quizData\<close> key. Every list of the output
  corresponds in the same way to a list of the input of the same length, but for the
  empty list under an \<^verbatim>\<open>attachments\<close> key that the input dict lacks. Any other value
  under a key that the input dict lacks is neither a dict nor a list.
\<close>

theorem keys_and_lengths_kept:
  assumes "anonymize_json d g = Inr out" and "wf_json d"
  shows "congruent True False d out"
proof -
  from assms(1) obtain st g1 g2 where
    "replace_identifiers st d g1 = Inr (out, g2)"
    by (auto simp: anonymize_json_def split: sum.splits prod.splits)
  with assms(2) show ?thesis by (rule replace_congruent)
qed

theorem keys_and_lengths_kept_witness:
  "anonymize_json shape_example zero_rng = Inr shape_example_out
   \<and> wf_json shape_example
   \<and> congruent True False shape_example shape_example_out
   \<and> get_path shape_example [Idx 0, Key ''updatedAt''] = None
   \<and> get_path shape_example_out [Idx 0, Key ''updatedAt''] = Some (JDict [(''seconds'', JInt 5)])"
proof -
  have h2: "wf_json shape_example" by (simp add: shape_example_def)
  have h3: "get_path shape_example [Idx 0, Key ''updatedAt''] = None"
    by (simp add: shape_example_def)
  have h4: "get_path shape_example_out [Idx 0, Key ''updatedAt'']
      = Some (JDict [(''seconds'', JInt 5)])"
    by (simp add: shape_example_out_def)
  from keys_and_lengths_kept[OF shape_example_run h2] shape_example_run h2 h3 h4
  show ?thesis by blast
qed

text \<open>
  The claim as stated leaves out the \<^verbatim>\<open>quizData\<close> branch, which adds up to eleven keys
  to a dict.
\<close>

theorem quiz_keys_added:
  "anonymize_json (JDict [(''quizData'', quiz_frame_in)]) zero_rng
     = Inr (JDict [(''quizData'', quiz_frame_out)])
   \<and> \<not> congruent False False (JDict [(''quizData'', quiz_frame_in)])
                               (JDict [(''quizData'', quiz_frame_out)])
   \<and> get_path (JDict [(''quizData'', quiz_frame_in)]) [Key ''quizData'', Key ''formId''] = None
   \<and> get_path (JDict [(''quizData'', quiz_frame_out)]) [Key ''quizData'', Key ''formId'']
       = Some (JStr ''quiz_form_100000'')"
  by (simp add: quiz_frame_run)
     (simp add: quiz_frame_in_def quiz_frame_out_def keys_congruent_def allowed_extra_def
        submission_shaped_def counterpart_def)

end
